theory Spec2Isabelle
  imports Complex_Main "HOL-Library.Monad_Syntax" "HOL-Library.Sublist"
begin

text \<open>
  The two serverless endpoints of the tracker: \<^verbatim>\<open>api/point.js\<close>, which sanitizes and stores
  the snapshot of an address, and \<^verbatim>\<open>api/track.js\<close>, which folds start, beat and end
  events into session records.  The first half of the theory embeds both files; the second
  half proves what their sanitizers, reducer and handlers do.
\<close>

section \<open>JavaScript values and coercions\<close>

text \<open>
  Both endpoints work on values produced by \<^verbatim>\<open>JSON.parse\<close>.  A number is an IEEE double:
  its finite values are modelled as reals (rounding of arithmetic is not modelled, the
  order and the sign of a difference are exact), with \<^verbatim>\<open>NaN\<close> and the two infinities
  as separate values.  A string is a \<open>string\<close>; one \<open>char\<close> stands for one code unit,
  so \<open>length\<close> is the \<^verbatim>\<open>.length\<close> of the source.  An object is the list of its own
  properties, looked up by \<open>map_of\<close>.
\<close>

datatype jsnum = NaN | NegInf | Fin real | PosInf

datatype jsval =
    JUndefined
  | JNull
  | JBool bool
  | JNum jsnum
  | JStr string
  | JArr "jsval list"
  | JObj "(string \<times> jsval) list"

text \<open>
  What the JavaScript runtime and the platform provide and the repository only calls:
  number formatting and parsing inside \<^verbatim>\<open>String(x)\<close> and \<^verbatim>\<open>Number(x)\<close>,
  \<^verbatim>\<open>JSON.parse\<close> (\<open>None\<close> when it throws) and the successive readings of
  \<^verbatim>\<open>Date.now()\<close>.  The functions below take them as one parameter, so every theorem
  holds for every runtime.
\<close>

record host =
  fmt_num :: "real \<Rightarrow> string"
  str_num :: "string \<Rightarrow> jsnum"
  json_parse :: "string \<Rightarrow> jsval option"
  date_now :: "nat \<Rightarrow> real"

text \<open>\<^verbatim>\<open>x.k\<close> on a non-nullish value and \<^verbatim>\<open>x?.k\<close> on any value, for the property names
  the source reads: none of them is a property of a primitive or of an array that the
  source could tell from \<^verbatim>\<open>undefined\<close>.\<close>

fun get :: "jsval \<Rightarrow> string \<Rightarrow> jsval" where
  "get (JObj kvs) k = (case map_of kvs k of Some x \<Rightarrow> x | None \<Rightarrow> JUndefined)"
| "get _ k = JUndefined"

fun truthy_num :: "jsnum \<Rightarrow> bool" where
  "truthy_num NaN = False"
| "truthy_num (Fin r) = (r \<noteq> 0)"
| "truthy_num _ = True"

fun truthy :: "jsval \<Rightarrow> bool" where
  "truthy JUndefined = False"
| "truthy JNull = False"
| "truthy (JBool b) = b"
| "truthy (JNum n) = truthy_num n"
| "truthy (JStr s) = (s \<noteq> [])"
| "truthy _ = True"

text \<open>\<^verbatim>\<open>a || b\<close> on values.\<close>

definition js_or :: "jsval \<Rightarrow> jsval \<Rightarrow> jsval" where
  "js_or a b = (if truthy a then a else b)"

fun num_text :: "host \<Rightarrow> jsnum \<Rightarrow> string" where
  "num_text h NaN = ''NaN''"
| "num_text h NegInf = ''-Infinity''"
| "num_text h PosInf = ''Infinity''"
| "num_text h (Fin r) = fmt_num h r"

fun join :: "string \<Rightarrow> string list \<Rightarrow> string" where
  "join sep [] = []"
| "join sep [s] = s"
| "join sep (s # t # ss) = s @ sep @ join sep (t # ss)"

text \<open>
  \<^verbatim>\<open>String(x)\<close>.  \<open>None\<close> is the \<^verbatim>\<open>TypeError\<close> of an object whose own property
  \<^verbatim>\<open>toString\<close> hides the inherited method: no JSON value is callable, and the inherited
  \<^verbatim>\<open>valueOf\<close> returns the object itself.  An array joins its elements with a comma,
  \<^verbatim>\<open>null\<close> and \<^verbatim>\<open>undefined\<close> elements giving the empty string.
\<close>

fun ToString :: "host \<Rightarrow> jsval \<Rightarrow> string option" where
  "ToString h JUndefined = Some ''undefined''"
| "ToString h JNull = Some ''null''"
| "ToString h (JBool b) = Some (if b then ''true'' else ''false'')"
| "ToString h (JNum n) = Some (num_text h n)"
| "ToString h (JStr s) = Some s"
| "ToString h (JArr xs) =
     map_option (join '','')
       (those (map (\<lambda>x. if x = JUndefined \<or> x = JNull then Some [] else ToString h x) xs))"
| "ToString h (JObj kvs) =
     (if ''toString'' \<in> fst ` set kvs then None else Some ''[object Object]'')"

text \<open>\<^verbatim>\<open>Number(x)\<close>: an array or an object is first turned into its string.\<close>

fun ToNumber :: "host \<Rightarrow> jsval \<Rightarrow> jsnum option" where
  "ToNumber h JUndefined = Some NaN"
| "ToNumber h JNull = Some (Fin 0)"
| "ToNumber h (JBool b) = Some (Fin (if b then 1 else 0))"
| "ToNumber h (JNum n) = Some n"
| "ToNumber h (JStr s) = Some (str_num h s)"
| "ToNumber h v = map_option (str_num h) (ToString h v)"

section \<open>Snapshot endpoint: the sanitizers of api/point.js\<close>

definition MAX_BODY_BYTES :: nat where "MAX_BODY_BYTES = 220000"
definition MAX_POINTS :: nat where "MAX_POINTS = 2400"
definition MAX_EVENTS :: nat where "MAX_EVENTS = 1200"

text \<open>\<^verbatim>\<open>Array.isArray\<close> as a view: the elements of an array, \<open>None\<close> for anything else.\<close>

fun as_array :: "jsval \<Rightarrow> jsval list option" where
  "as_array (JArr xs) = Some xs"
| "as_array _ = None"

fun clampArray :: "'a list option \<Rightarrow> nat \<Rightarrow> 'a list" where
  "clampArray None mx = []"
| "clampArray (Some arr) mx =
     (if length arr \<le> mx then arr else drop (length arr - mx) arr)"

text \<open>\<^verbatim>\<open>toNum\<close> returns a finite number, hence a real.\<close>

definition toNum :: "host \<Rightarrow> jsval \<Rightarrow> real option" where
  "toNum h x = do {
     n \<leftarrow> ToNumber h x;
     Some (case n of Fin r \<Rightarrow> r | _ \<Rightarrow> 0)
   }"

definition toStr :: "host \<Rightarrow> jsval \<Rightarrow> nat \<Rightarrow> string option" where
  "toStr h x maxLen = do {
     s \<leftarrow> ToString h (if x = JUndefined \<or> x = JNull then JStr [] else x);
     Some (if length s > maxLen then take maxLen s else s)
   }"

text \<open>\<^verbatim>\<open>s.replace(/\s+/g, "_")\<close>: every maximal run of white space becomes one underscore.
  The flag says that the previous character was white space.  \<open>is_space\<close> lists the
  white space of \<^verbatim>\<open>\s\<close> and of \<^verbatim>\<open>trim\<close> that a \<open>char\<close> can hold.\<close>

definition is_space :: "char \<Rightarrow> bool" where
  "is_space c = (of_char c \<in> {9, 10, 11, 12, 13, 32, 160 :: nat})"

fun replace_ws :: "bool \<Rightarrow> string \<Rightarrow> string" where
  "replace_ws inrun [] = []"
| "replace_ws inrun (c # cs) =
     (if is_space c then (if inrun then replace_ws True cs else CHR ''_'' # replace_ws True cs)
      else c # replace_ws False cs)"

record event =
  ev_id :: string
  ev_ts :: real
  ev_kind :: string
  ev_title :: string
  ev_detail :: string
  ev_value :: real
  ev_dir :: string
  ev_status :: string

text \<open>\<open>now\<close> is what \<^verbatim>\<open>Date.now()\<close> returns while this event is sanitized.\<close>

definition sanitizeEvent :: "host \<Rightarrow> real \<Rightarrow> jsval \<Rightarrow> event option" where
  "sanitizeEvent h now e = do {
     n \<leftarrow> toNum h (get e ''ts'');
     let ts = (if n \<noteq> 0 then n else now);
     kind \<leftarrow> toStr h (js_or (get e ''kind'') (js_or (get e ''type'') (JStr ''event''))) 32;
     title \<leftarrow> toStr h (js_or (get e ''title'') (JStr kind)) 64;
     detail \<leftarrow> toStr h (js_or (get e ''detail'') (js_or (get e ''desc'') (JStr []))) 220;
     value \<leftarrow> toNum h (get e ''value'');
     dir \<leftarrow> toStr h (js_or (get e ''dir'') (JStr [])) 8;
     status \<leftarrow> toStr h (js_or (get e ''status'') (JStr ''done'')) 12;
     ident \<leftarrow> toStr h (js_or (get e ''id'')
                (JStr (replace_ws False (fmt_num h ts @ '':'' @ kind @ '':'' @ title)))) 120;
     Some \<lparr> ev_id = ident, ev_ts = ts, ev_kind = kind, ev_title = title, ev_detail = detail,
            ev_value = value, ev_dir = dir, ev_status = status \<rparr>
   }"

record stake_series =
  stake_labels :: "string list"
  stake_data :: "real list"
  stake_moves :: "real list"
  stake_types :: "string list"

record wd_series =
  wd_labels :: "string list"
  wd_values :: "real list"
  wd_times :: "real list"

record nw_series =
  nw_times :: "real list"
  nw_usd :: "real list"
  nw_inj :: "real list"

record snapshot =
  snap_v :: nat
  snap_t :: real
  snap_stake :: stake_series
  snap_wd :: wd_series
  snap_nw :: nw_series
  snap_events :: "event list"

text \<open>\<^verbatim>\<open>arr.map(f)\<close> with a callback that may throw: the first exception ends the map.\<close>

definition map_throw :: "('a \<Rightarrow> 'b option) \<Rightarrow> 'a list \<Rightarrow> 'b list option" where
  "map_throw f xs = those (map f xs)"

text \<open>\<^verbatim>\<open>arr.slice(-n)\<close>: the last \<open>n\<close> elements, and the whole array when \<open>n\<close> is 0, since
  \<^verbatim>\<open>-0\<close> is the start index 0.\<close>

definition slice_last :: "nat \<Rightarrow> 'a list \<Rightarrow> 'a list" where
  "slice_last n xs = (if n = 0 then xs else drop (length xs - n) xs)"

text \<open>\<^verbatim>\<open>while (arr.length < n) arr.unshift(d)\<close>\<close>

function unshift_until :: "nat \<Rightarrow> 'a \<Rightarrow> 'a list \<Rightarrow> 'a list" where
  "unshift_until n d xs = (if length xs < n then unshift_until n d (d # xs) else xs)"
  by pat_completeness auto
termination
  by (relation "measure (\<lambda>(n, d, xs). n - length xs)") auto

text \<open>A \<^verbatim>\<open>Map\<close> keeps its entries in the order of first insertion; \<^verbatim>\<open>map.set(k, v)\<close>
  replaces the value of an existing key in place and appends a new key.\<close>

fun Map_set :: "'k \<Rightarrow> 'v \<Rightarrow> ('k \<times> 'v) list \<Rightarrow> ('k \<times> 'v) list" where
  "Map_set k v [] = [(k, v)]"
| "Map_set k v ((k', v') # m) = (if k' = k then (k, v) # m else (k', v') # Map_set k v m)"

text \<open>
  \<^verbatim>\<open>Array.prototype.sort(cmp)\<close> is a stable sort.  For a comparator that orders
  consistently every stable sort returns the same array, the one stable insertion builds:
  each element goes before the first later element it compares strictly below or equal to.
\<close>

fun js_insort :: "('a \<Rightarrow> 'a \<Rightarrow> real) \<Rightarrow> 'a \<Rightarrow> 'a list \<Rightarrow> 'a list" where
  "js_insort cmp x [] = [x]"
| "js_insort cmp x (y # ys) = (if cmp x y \<le> 0 then x # y # ys else y # js_insort cmp x ys)"

definition js_sort :: "('a \<Rightarrow> 'a \<Rightarrow> real) \<Rightarrow> 'a list \<Rightarrow> 'a list" where
  "js_sort cmp xs = foldr (js_insort cmp) xs []"

text \<open>\<^verbatim>\<open>x || 0\<close> on a finite number.\<close>

definition or0 :: "real \<Rightarrow> real" where
  "or0 x = (if x \<noteq> 0 then x else 0)"

definition cmp_ts :: "event \<Rightarrow> event \<Rightarrow> real" where
  "cmp_ts a b = or0 (ev_ts a) - or0 (ev_ts b)"

text \<open>The body of \<^verbatim>\<open>if (p?.stake) { ... }\<close>, on \<^verbatim>\<open>p.stake\<close>.\<close>

definition stake_block :: "host \<Rightarrow> jsval \<Rightarrow> stake_series option" where
  "stake_block h st = do {
     labels \<leftarrow> map_throw (\<lambda>x. toStr h x 48) (clampArray (as_array (get st ''labels'')) MAX_POINTS);
     dat \<leftarrow> map_throw (toNum h) (clampArray (as_array (get st ''data'')) MAX_POINTS);
     moves \<leftarrow> map_throw (toNum h) (clampArray (as_array (get st ''moves'')) MAX_POINTS);
     types \<leftarrow> map_throw (\<lambda>x. toStr h x 40) (clampArray (as_array (get st ''types'')) MAX_POINTS);
     let n = length dat;
     Some \<lparr> stake_labels = slice_last n labels,
            stake_data = dat,
            stake_moves = unshift_until n 0 (slice_last n moves),
            stake_types = unshift_until n ''Stake update'' (slice_last n types) \<rparr>
   }"

text \<open>The body of \<^verbatim>\<open>if (p?.wd) { ... }\<close>, on \<^verbatim>\<open>p.wd\<close>.\<close>

definition wd_block :: "host \<Rightarrow> jsval \<Rightarrow> wd_series option" where
  "wd_block h wd = do {
     labels \<leftarrow> map_throw (\<lambda>x. toStr h x 48) (clampArray (as_array (get wd ''labels'')) MAX_POINTS);
     vals \<leftarrow> map_throw (toNum h) (clampArray (as_array (get wd ''values'')) MAX_POINTS);
     times \<leftarrow> map_throw (toNum h) (clampArray (as_array (get wd ''times'')) MAX_POINTS);
     let n = length vals;
     Some \<lparr> wd_labels = slice_last n labels,
            wd_values = vals,
            wd_times = unshift_until n 0 (slice_last n times) \<rparr>
   }"

text \<open>The body of \<^verbatim>\<open>if (p?.nw) { ... }\<close>, on \<^verbatim>\<open>p.nw\<close>.\<close>

definition nw_block :: "host \<Rightarrow> jsval \<Rightarrow> nw_series option" where
  "nw_block h nw = do {
     times \<leftarrow> map_throw (toNum h) (clampArray (as_array (get nw ''times'')) MAX_POINTS);
     usd \<leftarrow> map_throw (toNum h) (clampArray (as_array (get nw ''usd'')) MAX_POINTS);
     inj \<leftarrow> map_throw (toNum h) (clampArray (as_array (get nw ''inj'')) MAX_POINTS);
     let n = length times;
     Some \<lparr> nw_times = times,
            nw_usd = unshift_until n 0 (slice_last n usd),
            nw_inj = unshift_until n 0 (slice_last n inj) \<rparr>
   }"

text \<open>The loop \<^verbatim>\<open>for (const ev of cleaned) map.set(ev.id, ev)\<close> and
  \<^verbatim>\<open>Array.from(map.values())\<close>.\<close>

fun set_each :: "(string \<times> event) list \<Rightarrow> event list \<Rightarrow> (string \<times> event) list" where
  "set_each m [] = m"
| "set_each m (ev # evs) = set_each (Map_set (ev_id ev) ev m) evs"

definition dedup :: "event list \<Rightarrow> event list" where
  "dedup cleaned = map snd (set_each [] cleaned)"

text \<open>The body of \<^verbatim>\<open>if (Array.isArray(p?.events)) { ... }\<close>; \<open>date_now h i\<close> is the clock
  while the event at index \<open>i\<close> is sanitized.\<close>

definition clean_events :: "host \<Rightarrow> jsval list \<Rightarrow> event list option" where
  "clean_events h es = map_throw (\<lambda>(i, e). sanitizeEvent h (date_now h i) e) (enumerate 0 es)"

definition events_block :: "host \<Rightarrow> jsval list \<Rightarrow> event list option" where
  "events_block h es = do {
     cleaned \<leftarrow> clean_events h es;
     Some (clampArray (Some (js_sort cmp_ts (dedup cleaned))) MAX_EVENTS)
   }"

text \<open>\<open>None\<close> is an exception thrown by a coercion; the closing \<^verbatim>\<open>Date.now()\<close> reads the
  clock after the last event.\<close>

definition sanitizePayload :: "host \<Rightarrow> jsval \<Rightarrow> snapshot option" where
  "sanitizePayload h p = do {
     stake \<leftarrow> (if truthy (get p ''stake'') then stake_block h (get p ''stake'')
               else Some \<lparr> stake_labels = [], stake_data = [], stake_moves = [], stake_types = [] \<rparr>);
     wd \<leftarrow> (if truthy (get p ''wd'') then wd_block h (get p ''wd'')
            else Some \<lparr> wd_labels = [], wd_values = [], wd_times = [] \<rparr>);
     nw \<leftarrow> (if truthy (get p ''nw'') then nw_block h (get p ''nw'')
            else Some \<lparr> nw_times = [], nw_usd = [], nw_inj = [] \<rparr>);
     events \<leftarrow> (case as_array (get p ''events'') of
                  Some es \<Rightarrow> events_block h es
                | None \<Rightarrow> Some []);
     Some \<lparr> snap_v = 2,
            snap_t = date_now h (case as_array (get p ''events'') of Some es \<Rightarrow> length es | None \<Rightarrow> 0),
            snap_stake = stake, snap_wd = wd, snap_nw = nw, snap_events = events \<rparr>
   }"

section \<open>Snapshot endpoint: the handler of api/point.js\<close>

text \<open>
  A request as the handlers see it: the method, \<^verbatim>\<open>req.query?.address\<close>, \<^verbatim>\<open>req.body\<close>
  (\<open>JUndefined\<close> when the platform has not parsed one), the chunks that the client sends
  on the request stream, in order, and whether the client ends the stream.  The listeners
  receive the chunks and then \<^verbatim>\<open>end\<close> as long as the request has not been destroyed: after
  \<^verbatim>\<open>req.destroy()\<close> a request emits neither \<^verbatim>\<open>data\<close> nor \<^verbatim>\<open>end\<close>.  A handler that waits
  for \<^verbatim>\<open>end\<close> forever gives no response, which is \<open>None\<close>.  Response headers are left out.
\<close>

record request =
  req_method :: string
  req_address :: jsval
  req_body :: jsval
  req_chunks :: "string list"
  req_ends :: bool

record 'b response =
  res_status :: nat
  res_body :: 'b

datatype point_body =
    P_none
  | P_error string
  | P_data jsval
  | P_saved jsval real

text \<open>
  The blob service: \<open>files st p\<close> is the text that \<^verbatim>\<open>readBlobTextByPathname(p)\<close> returns,
  \<open>None\<close> for its \<^verbatim>\<open>null\<close> (no blob, a failed fetch, any exception); \<open>write_ok\<close> says
  whether \<^verbatim>\<open>put\<close> succeeds or throws.
\<close>

record blob_store =
  files :: "string \<rightharpoonup> string"
  write_ok :: bool

text \<open>\<^verbatim>\<open>JSON.stringify\<close> of the parsed request body (\<open>None\<close> when it throws) and of the
  sanitized snapshot, and the \<^verbatim>\<open>url\<close> field of the blob that \<^verbatim>\<open>put\<close> returns.\<close>

record blob_api =
  value_text :: "jsval \<Rightarrow> string option"
  snapshot_text :: "snapshot \<Rightarrow> string"
  blob_url :: "string \<Rightarrow> jsval"

definition trim :: "string \<Rightarrow> string" where
  "trim s = rev (dropWhile is_space (rev (dropWhile is_space s)))"

definition is_alnum :: "char \<Rightarrow> bool" where
  "is_alnum c = (let n = (of_char c :: nat) in
     (48 \<le> n \<and> n \<le> 57) \<or> (65 \<le> n \<and> n \<le> 90) \<or> (97 \<le> n \<and> n \<le> 122))"

text \<open>\<^verbatim>\<open>/^inj[a-z0-9]{20,80}$/i.test(s)\<close>\<close>

fun addr_match :: "string \<Rightarrow> bool" where
  "addr_match (a # b # c # r) =
     (a \<in> {CHR ''i'', CHR ''I''} \<and> b \<in> {CHR ''n'', CHR ''N''} \<and> c \<in> {CHR ''j'', CHR ''J''}
      \<and> 20 \<le> length r \<and> length r \<le> 80 \<and> list_all is_alnum r)"
| "addr_match _ = False"

definition normalizeAddr :: "host \<Rightarrow> jsval \<Rightarrow> string option" where
  "normalizeAddr h a = do {
     t \<leftarrow> ToString h (js_or a (JStr []));
     let s = trim t;
     Some (if \<not> addr_match s then [] else s)
   }"

text \<open>The variables \<^verbatim>\<open>raw\<close> and \<^verbatim>\<open>tooLarge\<close> of \<^verbatim>\<open>readRawBody\<close>, and whether the request
  has been destroyed.\<close>

record reader =
  rd_raw :: string
  rd_tooLarge :: bool
  rd_destroyed :: bool

text \<open>The \<^verbatim>\<open>data\<close> listener of \<^verbatim>\<open>readRawBody\<close>.  Every request has the method
  \<^verbatim>\<open>destroy\<close>, so the \<^verbatim>\<open>try\<close> around the call catches nothing.\<close>

definition on_data :: "reader \<Rightarrow> string \<Rightarrow> reader" where
  "on_data s chunk =
     (let raw = rd_raw s @ chunk in
      if length raw > MAX_BODY_BYTES
      then \<lparr> rd_raw = [], rd_tooLarge = True, rd_destroyed = True \<rparr>
      else s\<lparr> rd_raw := raw \<rparr>)"

text \<open>The chunks reach the listener one after the other until the request is destroyed.\<close>

fun emit :: "reader \<Rightarrow> string list \<Rightarrow> reader" where
  "emit s [] = s"
| "emit s (chunk # chunks) = (if rd_destroyed s then s else emit (on_data s chunk) chunks)"

text \<open>\<open>None\<close>: the promise never resolves, because \<^verbatim>\<open>end\<close> is not emitted.  \<open>Some None\<close>:
  the \<^verbatim>\<open>null\<close> that signals a body that is too large.\<close>

definition readRawBody :: "blob_api \<Rightarrow> request \<Rightarrow> string option option" where
  "readRawBody api r =
     (if req_body r \<noteq> JUndefined \<and> req_body r \<noteq> JNull then
        (case req_body r of
           JStr s \<Rightarrow> Some (Some s)
         | b \<Rightarrow> Some (Some (case value_text api b of Some s \<Rightarrow> s | None \<Rightarrow> [])))
      else
        (let s = emit \<lparr> rd_raw = [], rd_tooLarge = False, rd_destroyed = False \<rparr> (req_chunks r) in
         if rd_destroyed s \<or> \<not> req_ends r then None
         else if rd_tooLarge s then Some None
         else Some (Some (rd_raw s))))"

definition json :: "nat \<Rightarrow> 'b \<Rightarrow> 'b response" where
  "json code obj = \<lparr> res_status = code, res_body = obj \<rparr>"

definition point_handler ::
  "host \<Rightarrow> blob_api \<Rightarrow> blob_store \<Rightarrow> request \<Rightarrow> point_body response option \<times> blob_store" where
  "point_handler h api st r =
     (if req_method r = ''OPTIONS'' then (Some (json 204 P_none), st)
      else case normalizeAddr h (req_address r) of
        None \<Rightarrow> (Some (json 500 (P_error ''Server error'')), st)
      | Some address \<Rightarrow>
          if address = [] then (Some (json 400 (P_error ''Invalid address'')), st)
          else
            let pathname = ''inj-points/'' @ address @ ''/'' @ ''data.json'' in
            if req_method r = ''GET'' then
              (case files st pathname of
                 None \<Rightarrow> (Some (json 200 (P_data JNull)), st)
               | Some txt \<Rightarrow>
                   if txt = [] then (Some (json 200 (P_data JNull)), st)
                   else (Some (json 200 (P_data (case json_parse h txt of
                                                   Some d \<Rightarrow> d | None \<Rightarrow> JNull))), st))
            else if req_method r = ''POST'' then
              (case readRawBody api r of
                 None \<Rightarrow> (None, st)
               | Some None \<Rightarrow> (Some (json 413 (P_error ''Body too large'')), st)
               | Some (Some raw) \<Rightarrow>
                   if raw = [] then (Some (json 400 (P_error ''Empty body'')), st)
                   else (case json_parse h raw of
                      None \<Rightarrow> (Some (json 400 (P_error ''Invalid JSON'')), st)
                    | Some parsed \<Rightarrow>
                        (case sanitizePayload h parsed of
                           None \<Rightarrow> (Some (json 500 (P_error ''Server error'')), st)
                         | Some clean \<Rightarrow>
                             if write_ok st then
                               (Some (json 200 (P_saved (js_or (blob_url api pathname) JNull)
                                                        (snap_t clean))),
                                st\<lparr> files := (files st)(pathname \<mapsto> snapshot_text api clean) \<rparr>)
                             else (Some (json 500 (P_error ''Server error'')), st))))
            else (Some (json 405 (P_error ''Method not allowed'')), st))"

section \<open>Tracking endpoint: api/track.js\<close>

definition MAX_SESSIONS :: nat where "MAX_SESSIONS = 5000"

text \<open>
  A session record as the handler creates it.  The stored collection is the array this
  handler wrote earlier; a time stamp read back from it is a number or \<^verbatim>\<open>null\<close>
  (\<open>None\<close>), \<^verbatim>\<open>beats\<close> is a count, \<^verbatim>\<open>endReason\<close> is absent (\<open>None\<close>) until an end event.
\<close>

record session =
  sessionId :: string
  deviceId :: string
  startTs :: "jsnum option"
  lastTs :: "jsnum option"
  endTs :: "jsnum option"
  beats :: nat
  page :: string
  deviceInfo :: jsval
  endReason :: "string option"

text \<open>
  What \<^verbatim>\<open>list\<close> and \<^verbatim>\<open>fetch\<close> find under a key: no blob, a response that is not ok,
  a body that \<^verbatim>\<open>r.json()\<close> cannot parse, or the parsed document.
\<close>

datatype 'a fetched = No_blob | Not_ok | Bad_json | Doc 'a

record track_store =
  sessions_doc :: "session list fetched"
  names_doc :: "(string \<rightharpoonup> string) fetched"
  can_write :: bool

text \<open>\<^verbatim>\<open>JSON.stringify(sessions).length\<close> and \<^verbatim>\<open>Math.floor(n * 0.7)\<close> in double arithmetic.\<close>

record track_api =
  sessions_size :: "session list \<Rightarrow> nat"
  floor07 :: "nat \<Rightarrow> nat"

datatype track_body =
    T_ok
  | T_error string
  | T_exception
  | T_stats "session list" "string \<rightharpoonup> string" real

text \<open>\<open>None\<close>: \<^verbatim>\<open>r.json()\<close> rejects and the exception leaves \<^verbatim>\<open>readJsonOr\<close>.\<close>

fun readJsonOr :: "'a \<Rightarrow> 'a fetched \<Rightarrow> 'a option" where
  "readJsonOr defaultValue No_blob = Some defaultValue"
| "readJsonOr defaultValue Not_ok = Some defaultValue"
| "readJsonOr defaultValue Bad_json = None"
| "readJsonOr defaultValue (Doc x) = Some x"

text \<open>What \<^verbatim>\<open>JSON.stringify\<close> followed by a later \<^verbatim>\<open>r.json()\<close> makes of a value: a number
  that is not finite comes back as \<^verbatim>\<open>null\<close>, an \<^verbatim>\<open>undefined\<close> property is dropped.\<close>

fun json_num :: "jsnum option \<Rightarrow> jsnum option" where
  "json_num (Some (Fin r)) = Some (Fin r)"
| "json_num _ = None"

fun json_value :: "jsval \<Rightarrow> jsval" where
  "json_value JUndefined = JNull"
| "json_value (JNum n) = (case n of Fin r \<Rightarrow> JNum (Fin r) | _ \<Rightarrow> JNull)"
| "json_value (JArr xs) = JArr (map json_value xs)"
| "json_value (JObj kvs) =
     JObj (map (\<lambda>kv. (fst kv, json_value (snd kv))) (filter (\<lambda>kv. snd kv \<noteq> JUndefined) kvs))"
| "json_value v = v"

definition json_session :: "session \<Rightarrow> session" where
  "json_session s = s\<lparr> startTs := json_num (startTs s), lastTs := json_num (lastTs s),
                       endTs := json_num (endTs s), deviceInfo := json_value (deviceInfo s) \<rparr>"

text \<open>\<^verbatim>\<open>writeJson(SESSIONS_KEY, data)\<close>: \<open>None\<close> when \<^verbatim>\<open>put\<close> throws.\<close>

definition writeJson_sessions :: "track_api \<Rightarrow> track_store \<Rightarrow> session list \<Rightarrow> track_store option" where
  "writeJson_sessions api st data =
     (let out = (if sessions_size api data > MAX_BODY_BYTES
                 then slice_last (floor07 api (length data)) data else data)
      in if can_write st then Some (st\<lparr> sessions_doc := Doc (map json_session out) \<rparr>) else None)"

definition writeJson_names :: "track_store \<Rightarrow> (string \<rightharpoonup> string) \<Rightarrow> track_store option" where
  "writeJson_names st data =
     (if can_write st then Some (st\<lparr> names_doc := Doc data \<rparr>) else None)"

text \<open>\<^verbatim>\<open>s.startTs || ts\<close>, \<^verbatim>\<open>s.lastTs || 0\<close> and \<^verbatim>\<open>Math.max\<close> on two numbers.\<close>

fun ts_or :: "jsnum option \<Rightarrow> jsnum \<Rightarrow> jsnum option" where
  "ts_or (Some n) ts = (if truthy_num n then Some n else Some ts)"
| "ts_or None ts = Some ts"

fun ts_or0 :: "jsnum option \<Rightarrow> jsnum" where
  "ts_or0 (Some n) = (if truthy_num n then n else Fin 0)"
| "ts_or0 None = Fin 0"

fun Math_max :: "jsnum \<Rightarrow> jsnum \<Rightarrow> jsnum" where
  "Math_max NaN b = NaN"
| "Math_max a NaN = NaN"
| "Math_max PosInf b = PosInf"
| "Math_max a PosInf = PosInf"
| "Math_max NegInf b = b"
| "Math_max a NegInf = a"
| "Math_max (Fin x) (Fin y) = Fin (max x y)"

text \<open>The object \<^verbatim>\<open>s\<close> found by \<^verbatim>\<open>sessions.find\<close> is an element of the array, so its
  mutation shows in the array, at the first record with that id.\<close>

fun write_back :: "string \<Rightarrow> session \<Rightarrow> session list \<Rightarrow> session list" where
  "write_back sid s' [] = []"
| "write_back sid s' (x # xs) =
     (if sessionId x = sid then s' # xs else x # write_back sid s' xs)"

datatype reduced = Unknown_type | Type_error | Sessions "session list"

text \<open>The session reducer: from \<^verbatim>\<open>sessions.find\<close> to the end of the \<^verbatim>\<open>if\<close> chain on
  \<^verbatim>\<open>payload.type\<close>.\<close>

definition minimal :: "string \<Rightarrow> string \<Rightarrow> jsnum \<Rightarrow> jsnum option \<Rightarrow> session" where
  "minimal sid did ts e =
     \<lparr> sessionId = sid, deviceId = did, startTs = Some ts, lastTs = Some ts, endTs = e,
       beats = 0, page = [], deviceInfo = JObj [], endReason = None \<rparr>"

definition reducer ::
  "host \<Rightarrow> jsval \<Rightarrow> string \<Rightarrow> string \<Rightarrow> jsnum \<Rightarrow> session list \<Rightarrow> reduced" where
  "reducer h payload sid did ts sessions =
     (let found = find (\<lambda>x. sessionId x = sid) sessions in
      if get payload ''type'' = JStr ''start'' then
        (case found of
           None \<Rightarrow>
             (case ToString h (js_or (get payload ''page'') (JStr [])) of
                None \<Rightarrow> Type_error
              | Some pg \<Rightarrow>
                  Sessions (sessions @
                    [\<lparr> sessionId = sid, deviceId = did, startTs = Some ts, lastTs = Some ts,
                       endTs = None, beats = 0, page = pg,
                       deviceInfo = js_or (get payload ''deviceInfo'') (JObj []),
                       endReason = None \<rparr>]))
         | Some s \<Rightarrow>
             Sessions (write_back sid (s\<lparr> startTs := ts_or (startTs s) ts, lastTs := Some ts \<rparr>)
                         sessions))
      else if get payload ''type'' = JStr ''beat'' then
        (let s = (case found of None \<Rightarrow> minimal sid did ts None | Some s \<Rightarrow> s);
             sessions1 = (case found of None \<Rightarrow> sessions @ [s] | Some _ \<Rightarrow> sessions)
         in Sessions (write_back sid
                        (s\<lparr> lastTs := Some (Math_max (ts_or0 (lastTs s)) ts),
                            beats := (if beats s \<noteq> 0 then beats s else 0) + 1 \<rparr>)
                        sessions1))
      else if get payload ''type'' = JStr ''end'' then
        (let s = (case found of None \<Rightarrow> minimal sid did ts (Some ts) | Some s \<Rightarrow> s);
             sessions1 = (case found of None \<Rightarrow> sessions @ [s] | Some _ \<Rightarrow> sessions)
         in case ToString h (js_or (get payload ''reason'') (JStr ''end'')) of
              None \<Rightarrow> Type_error
            | Some reason \<Rightarrow>
                Sessions (write_back sid
                            (s\<lparr> lastTs := Some (Math_max (ts_or0 (lastTs s)) ts),
                                endTs := ts_or (endTs s) ts,
                                endReason := Some reason \<rparr>)
                            sessions1))
      else Unknown_type)"

text \<open>\<^verbatim>\<open>if (sessions.length > MAX_SESSIONS) sessions.splice(0, sessions.length - MAX_SESSIONS)\<close>\<close>

definition cap :: "session list \<Rightarrow> session list" where
  "cap sessions =
     (if length sessions > MAX_SESSIONS then drop (length sessions - MAX_SESSIONS) sessions
      else sessions)"

text \<open>
  The handler.  Every exception ends in the \<^verbatim>\<open>catch\<close>, answered with status 500 and the
  message of the exception (\<open>T_exception\<close>).  Reading \<^verbatim>\<open>payload.type\<close> of \<^verbatim>\<open>null\<close>
  throws.  A name is stored under the string of \<^verbatim>\<open>payload.deviceId\<close>; the assignment
  \<^verbatim>\<open>names["__proto__"] = n\<close> goes to the setter of the prototype, which ignores a string,
  and stores nothing.
\<close>

definition reply :: "nat \<Rightarrow> track_body \<Rightarrow> track_store \<Rightarrow> track_body response option \<times> track_store" where
  "reply code obj st = (Some (json code obj), st)"

definition track_name ::
  "host \<Rightarrow> track_store \<Rightarrow> jsval \<Rightarrow> track_body response option \<times> track_store" where
  "track_name h st payload =
     (case readJsonOr Map.empty (names_doc st) of
        None \<Rightarrow> reply 500 T_exception st
      | Some names \<Rightarrow>
          (case ToString h (js_or (get payload ''name'') (JStr [])) of
             None \<Rightarrow> reply 500 T_exception st
           | Some nm \<Rightarrow>
               let n = take 32 (trim nm) in
               if \<not> truthy (get payload ''deviceId'') then reply 400 (T_error ''Missing deviceId'') st
               else if n = [] then reply 400 (T_error ''Empty name'') st
               else (case ToString h (get payload ''deviceId'') of
                  None \<Rightarrow> reply 500 T_exception st
                | Some key \<Rightarrow>
                    (case writeJson_names st
                            (if key = ''__proto__'' then names else names(key \<mapsto> n)) of
                       None \<Rightarrow> reply 500 T_exception st
                     | Some st' \<Rightarrow> reply 200 T_ok st'))))"

definition track_session ::
  "host \<Rightarrow> track_api \<Rightarrow> track_store \<Rightarrow> jsval \<Rightarrow> track_body response option \<times> track_store" where
  "track_session h api st payload =
     (case readJsonOr [] (sessions_doc st) of
        None \<Rightarrow> reply 500 T_exception st
      | Some sessions \<Rightarrow>
          (case ToString h (js_or (get payload ''sessionId'') (JStr [])) of
             None \<Rightarrow> reply 500 T_exception st
           | Some sid \<Rightarrow>
          (case ToString h (js_or (get payload ''deviceId'') (JStr [])) of
             None \<Rightarrow> reply 500 T_exception st
           | Some did \<Rightarrow>
          (case ToNumber h (js_or (get payload ''ts'') (JNum (Fin (date_now h 0)))) of
             None \<Rightarrow> reply 500 T_exception st
           | Some ts \<Rightarrow>
               if sid = [] \<or> did = [] then reply 400 (T_error ''Missing sessionId/deviceId'') st
               else (case reducer h payload sid did ts sessions of
                  Unknown_type \<Rightarrow> reply 400 (T_error ''Unknown type'') st
                | Type_error \<Rightarrow> reply 500 T_exception st
                | Sessions ss \<Rightarrow>
                    (case writeJson_sessions api st (cap ss) of
                       None \<Rightarrow> reply 500 T_exception st
                     | Some st' \<Rightarrow> reply 200 T_ok st'))))))"

definition track_handler ::
  "host \<Rightarrow> track_api \<Rightarrow> track_store \<Rightarrow> request \<Rightarrow> track_body response option \<times> track_store" where
  "track_handler h api st r =
     (let method = (if req_method r = [] then ''GET'' else req_method r) in
      if method = ''GET'' then
        (case readJsonOr [] (sessions_doc st) of
           None \<Rightarrow> reply 500 T_exception st
         | Some sessions \<Rightarrow>
             (case readJsonOr Map.empty (names_doc st) of
                None \<Rightarrow> reply 500 T_exception st
              | Some names \<Rightarrow> reply 200 (T_stats sessions names (date_now h 0)) st))
      else if method \<noteq> ''POST'' then reply 405 (T_error ''Method Not Allowed'') st
      else if \<not> req_ends r then (None, st)
      else
        let body = concat (req_chunks r) in
        if body = [] then reply 400 (T_error ''Empty body'') st
        else if length body > MAX_BODY_BYTES then reply 413 (T_error ''Body too large'') st
        else (case json_parse h body of
           None \<Rightarrow> reply 500 T_exception st
         | Some payload \<Rightarrow>
             if payload = JNull \<or> payload = JUndefined then reply 500 T_exception st
             else if get payload ''type'' = JStr ''name'' then track_name h st payload
             else track_session h api st payload))"

section \<open>Sample inputs\<close>

text \<open>A runtime for the concrete evaluations below: only the string \<^verbatim>\<open>"0"\<close> is given
  its number, the clock starts at 1000.\<close>

definition host0 :: host where
  "host0 = \<lparr> fmt_num = (\<lambda>r. ''n''),
             str_num = (\<lambda>s. if s = ''0'' then Fin 0 else NaN),
             json_parse = (\<lambda>s. None),
             date_now = (\<lambda>k. 1000 + real k) \<rparr>"

text \<open>A payload whose series arrive with arrays of different lengths.\<close>

definition uneven :: jsval where
  "uneven = JObj [
     (''stake'', JObj [(''labels'', JArr [JStr ''Mon'']),
                      (''data'', JArr [JNum (Fin 1), JNum (Fin 2), JNum (Fin 3)]),
                      (''moves'', JArr [JNum (Fin 7)])]),
     (''wd'', JObj [(''labels'', JArr [JStr ''a'']),
                   (''values'', JArr [JNum (Fin 4), JNum (Fin 5)])]),
     (''nw'', JObj [(''times'', JArr [JNum (Fin 10), JNum (Fin 20)]),
                   (''usd'', JArr [JNum (Fin 1), JNum (Fin 2), JNum (Fin 3)])])]"

definition uneven_clean :: snapshot where
  "uneven_clean =
     \<lparr> snap_v = 2, snap_t = 1000,
       snap_stake = \<lparr> stake_labels = [''Mon''], stake_data = [1, 2, 3], stake_moves = [0, 0, 7],
                      stake_types = [''Stake update'', ''Stake update'', ''Stake update''] \<rparr>,
       snap_wd = \<lparr> wd_labels = [''a''], wd_values = [4, 5], wd_times = [0, 0] \<rparr>,
       snap_nw = \<lparr> nw_times = [10, 20], nw_usd = [2, 3], nw_inj = [0, 0] \<rparr>,
       snap_events = [] \<rparr>"

text \<open>A payload whose stake section has one move and no data.\<close>

definition no_primary :: jsval where
  "no_primary = JObj [(''stake'', JObj [(''moves'', JArr [JNum (Fin 7)])])]"

text \<open>A POST of a snapshot whose stake section has three data points and nothing else,
  sent in two chunks to a store that accepts writes.\<close>

definition body_stake :: string where
  \<open>body_stake = ''{"stake":{"data":[1,2,3]}}''\<close>

definition payload_stake :: jsval where
  "payload_stake = JObj [(''stake'', JObj [(''data'', JArr [JNum (Fin 1), JNum (Fin 2), JNum (Fin 3)])])]"

definition host_stake :: host where
  "host_stake = host0 \<lparr> json_parse := (\<lambda>s. if s = body_stake then Some payload_stake else None) \<rparr>"

definition address0 :: string where
  "address0 = ''inj1qwertyuiopasdfghjklzxcvbnm0123456789''"

definition post_stake :: request where
  "post_stake = \<lparr> req_method = ''POST'', req_address = JStr address0, req_body = JUndefined,
                   req_chunks = [take 10 body_stake, drop 10 body_stake], req_ends = True \<rparr>"

definition api0 :: blob_api where
  "api0 = \<lparr> value_text = (\<lambda>v. None), snapshot_text = (\<lambda>s. ''snapshot''), blob_url = (\<lambda>p. JStr (''https://blob/'' @ p)) \<rparr>"

definition store0 :: blob_store where
  "store0 = \<lparr> files = Map.empty, write_ok = True \<rparr>"

definition stake_clean :: snapshot where
  "stake_clean =
     \<lparr> snap_v = 2, snap_t = 1000,
       snap_stake = \<lparr> stake_labels = [], stake_data = [1, 2, 3], stake_moves = [0, 0, 0],
                      stake_types = [''Stake update'', ''Stake update'', ''Stake update''] \<rparr>,
       snap_wd = \<lparr> wd_labels = [], wd_values = [], wd_times = [] \<rparr>,
       snap_nw = \<lparr> nw_times = [], nw_usd = [], nw_inj = [] \<rparr>,
       snap_events = [] \<rparr>"

text \<open>Sample tracking data: a platform whose documents stay far below the size ceiling (so
  that \<open>floor07\<close> is never consulted), a running session, and the events sent for it and
  for new sessions.\<close>

definition track_api0 :: track_api where
  "track_api0 = \<lparr> sessions_size = (\<lambda>ss. 2 + 200 * length ss), floor07 = (\<lambda>n. 7 * n div 10) \<rparr>"

definition running :: session where
  "running = \<lparr> sessionId = ''s1'', deviceId = ''d1'', startTs = Some (Fin 100),
               lastTs = Some (Fin 200), endTs = None, beats = 3, page = ''/'',
               deviceInfo = JObj [], endReason = None \<rparr>"

definition store_running :: track_store where
  "store_running = \<lparr> sessions_doc = Doc [running], names_doc = No_blob, can_write = True \<rparr>"

definition store_empty :: track_store where
  "store_empty = \<lparr> sessions_doc = No_blob, names_doc = No_blob, can_write = True \<rparr>"

definition start_retry :: jsval where
  "start_retry = JObj [(''type'', JStr ''start''), (''sessionId'', JStr ''s1''),
                       (''deviceId'', JStr ''d1''), (''ts'', JNum (Fin 150))]"

definition beat_first :: jsval where
  "beat_first = JObj [(''type'', JStr ''beat''), (''sessionId'', JStr ''s9''),
                      (''deviceId'', JStr ''d9''), (''ts'', JNum (Fin 300))]"

definition end_first :: jsval where
  "end_first = JObj [(''type'', JStr ''end''), (''sessionId'', JStr ''s1''),
                     (''deviceId'', JStr ''d1''), (''ts'', JNum (Fin 250)),
                     (''reason'', JStr ''close'')]"

definition end_second :: jsval where
  "end_second = JObj [(''type'', JStr ''end''), (''sessionId'', JStr ''s1''),
                      (''deviceId'', JStr ''d1''), (''ts'', JNum (Fin 900))]"

definition ended :: session where
  "ended = running \<lparr> lastTs := Some (Fin 250), endTs := Some (Fin 250), endReason := Some ''close'' \<rparr>"

definition end_zero :: jsval where
  "end_zero = JObj [(''type'', JStr ''end''), (''sessionId'', JStr ''s5''),
                    (''deviceId'', JStr ''d5''), (''ts'', JStr ''0'')]"

definition end_five :: jsval where
  "end_five = JObj [(''type'', JStr ''end''), (''sessionId'', JStr ''s5''),
                    (''deviceId'', JStr ''d5''), (''ts'', JNum (Fin 5))]"

definition zero_ended :: session where
  "zero_ended = \<lparr> sessionId = ''s5'', deviceId = ''d5'', startTs = Some (Fin 0),
                  lastTs = Some (Fin 0), endTs = Some (Fin 0), beats = 0, page = [],
                  deviceInfo = JObj [], endReason = Some ''end'' \<rparr>"

text \<open>Sample event lists: the three events of the ordering example, a list that sends the
  id \<^verbatim>\<open>a\<close> twice, and a list of 1202 events, the first two equal, followed by 1200
  events with the ids \<^verbatim>\<open>0000\<close> to \<^verbatim>\<open>1199\<close> and later time stamps.  \<open>plain_event i t\<close> is
  the sanitized form of an event that has only an id and a time stamp.\<close>

definition abc_events :: "jsval list" where
  "abc_events = [JObj [(''ts'', JNum (Fin 5)), (''id'', JStr ''a'')],
                 JObj [(''ts'', JNum (Fin 3)), (''id'', JStr ''b'')],
                 JObj [(''ts'', JNum (Fin 5)), (''id'', JStr ''c'')]]"

definition has_id :: "string \<Rightarrow> event \<Rightarrow> bool" where
  "has_id i e = (ev_id e = i)"

definition id4 :: "nat \<Rightarrow> string" where
  "id4 k = [char_of (48 + k div 1000 mod 10), char_of (48 + k div 100 mod 10),
               char_of (48 + k div 10 mod 10), char_of (48 + k mod 10)]"

definition flood_event :: "nat \<Rightarrow> jsval" where
  "flood_event k = JObj [(''id'', JStr (id4 k)), (''ts'', JNum (Fin (2 + real k)))]"

definition twice :: jsval where
  "twice = JObj [(''id'', JStr ''a''), (''ts'', JNum (Fin 1))]"

definition flood :: "jsval list" where
  "flood = twice # twice # map flood_event [0..<1200]"

definition dup_events :: "jsval list" where
  "dup_events = [JObj [(''ts'', JNum (Fin 5)), (''id'', JStr ''a''), (''title'', JStr ''old'')],
                 JObj [(''ts'', JNum (Fin 3)), (''id'', JStr ''b'')],
                 JObj [(''ts'', JNum (Fin 5)), (''id'', JStr ''a''), (''title'', JStr ''new'')]]"

definition plain_event :: "string \<Rightarrow> real \<Rightarrow> event" where
  "plain_event i t = \<lparr> ev_id = i, ev_ts = t, ev_kind = ''event'', ev_title = ''event'',
                        ev_detail = [], ev_value = 0, ev_dir = [], ev_status = ''done'' \<rparr>"

text \<open>What sanitizing makes of the events of \<open>flood\<close>, read off their two fields.\<close>

definition flood_clean :: "jsval \<Rightarrow> event" where
  "flood_clean e = (case get e ''id'' of JStr i \<Rightarrow>
      (case get e ''ts'' of JNum (Fin t) \<Rightarrow> plain_event i t | _ \<Rightarrow> plain_event i 0)
    | _ \<Rightarrow> plain_event [] 0)"

text \<open>A body of 220001 characters that is valid JSON, a runtime that parses it, and two
  requests that carry it: one in \<^verbatim>\<open>req.body\<close>, one as two chunks of the stream.\<close>

definition body_big :: string where
  "body_big = CHR ''{'' # replicate 219999 CHR '' '' @ ''}''"

definition host_big :: host where
  "host_big = host0 \<lparr> json_parse := (\<lambda>s. if s = body_big then Some (JObj []) else None) \<rparr>"

definition post_big :: request where
  "post_big = \<lparr> req_method = ''POST'', req_address = JStr address0, req_body = JStr body_big,
                 req_chunks = [], req_ends = True \<rparr>"

definition stream_big :: request where
  "stream_big = \<lparr> req_method = ''POST'', req_address = JStr address0, req_body = JUndefined,
                   req_chunks = [take 100000 body_big, drop 100000 body_big], req_ends = True \<rparr>"

text \<open>Two event lists whose sanitized form depends on the clock, and a runtime whose clock
  reads \<open>t\<close> and that prints the numbers 1000 and 2000 as JavaScript does.  In \<open>unstamped\<close>
  the first event has no \<^verbatim>\<open>ts\<close>; in \<open>colliding\<close> the first event has no field at all, and
  the third carries the id that the first is given when the clock reads 1000.\<close>

definition host_at :: "real \<Rightarrow> host" where
  "host_at t = host0 \<lparr> fmt_num := (\<lambda>r. if r = 1000 then ''1000'' else if r = 2000 then ''2000'' else ''n''),
                       date_now := (\<lambda>k. t) \<rparr>"

definition unstamped :: "jsval list" where
  "unstamped = [JObj [(''id'', JStr ''a'')],
                JObj [(''id'', JStr ''b''), (''ts'', JNum (Fin 1500))]]"

definition colliding :: "jsval list" where
  "colliding = [JObj [],
                JObj [(''id'', JStr ''y''), (''ts'', JNum (Fin 5))],
                JObj [(''id'', JStr ''1000:event:event''), (''ts'', JNum (Fin 5))]]"

text \<open>The values on which no coercion throws: no object in them has an own property named
  \<^verbatim>\<open>toString\<close>.\<close>

fun ordinary :: "jsval \<Rightarrow> bool" where
  "ordinary (JArr xs) = list_all ordinary xs"
| "ordinary (JObj kvs) = (''toString'' \<notin> fst ` set kvs \<and> list_all (\<lambda>kv. ordinary (snd kv)) kvs)"
| "ordinary _ = True"

section \<open>Arrays of a series\<close>

lemma unshift_until_eq: "unshift_until n d xs = replicate (n - length xs) d @ xs"
proof (induction n d xs rule: unshift_until.induct)
  case (1 n d xs)
  show ?case
  proof (cases "length xs < n")
    case True
    then have "n - length xs = Suc (n - Suc (length xs))" by simp
    with True 1 show ?thesis
      by (simp add: replicate_app_Cons_same)
  next
    case False
    then show ?thesis by simp
  qed
qed

declare unshift_until.simps [simp del]

lemma map_throw_length: "map_throw f xs = Some ys \<Longrightarrow> length ys = length xs"
  unfolding map_throw_def
  by (induction xs arbitrary: ys) (auto split: option.splits)

lemma length_clampArray: "length (clampArray a mx) \<le> mx"
  by (cases a) auto

lemma length_padded:
  "length (unshift_until n d (slice_last n xs)) = (if n = 0 then length xs else n)"
  by (auto simp: unshift_until_eq slice_last_def)

lemma length_sliced:
  "length (slice_last n xs) = (if n = 0 then length xs else min n (length xs))"
  by (auto simp: slice_last_def)

lemma stake_block_lengths:
  assumes "stake_block h st = Some s"
  shows "length (stake_data s) \<le> MAX_POINTS"
    and "length (stake_labels s) \<le> MAX_POINTS"
    and "length (stake_moves s) \<le> MAX_POINTS"
    and "length (stake_types s) \<le> MAX_POINTS"
    and "stake_data s \<noteq> [] \<Longrightarrow> length (stake_moves s) = length (stake_data s)"
    and "stake_data s \<noteq> [] \<Longrightarrow> length (stake_types s) = length (stake_data s)"
    and "stake_data s \<noteq> [] \<Longrightarrow> length (stake_labels s) =
           min (length (stake_data s)) (length (clampArray (as_array (get st ''labels'')) MAX_POINTS))"
proof -
  from assms obtain labels dat moves types where
    l: "map_throw (\<lambda>x. toStr h x 48) (clampArray (as_array (get st ''labels'')) MAX_POINTS) = Some labels" and
    d: "map_throw (toNum h) (clampArray (as_array (get st ''data'')) MAX_POINTS) = Some dat" and
    m: "map_throw (toNum h) (clampArray (as_array (get st ''moves'')) MAX_POINTS) = Some moves" and
    t: "map_throw (\<lambda>x. toStr h x 40) (clampArray (as_array (get st ''types'')) MAX_POINTS) = Some types" and
    s: "s = \<lparr> stake_labels = slice_last (length dat) labels, stake_data = dat,
             stake_moves = unshift_until (length dat) 0 (slice_last (length dat) moves),
             stake_types = unshift_until (length dat) ''Stake update'' (slice_last (length dat) types) \<rparr>"
    by (auto simp: stake_block_def Let_def split: Option.bind_splits)
  have ll: "length labels \<le> MAX_POINTS" and ld: "length dat \<le> MAX_POINTS"
    and lm: "length moves \<le> MAX_POINTS" and lt: "length types \<le> MAX_POINTS"
    using map_throw_length [OF l] map_throw_length [OF d] map_throw_length [OF m]
      map_throw_length [OF t] length_clampArray by metis+
  show "length (stake_data s) \<le> MAX_POINTS" using ld by (simp add: s)
  show "length (stake_labels s) \<le> MAX_POINTS" using ll ld by (auto simp: s length_sliced)
  show "length (stake_moves s) \<le> MAX_POINTS" using lm ld by (simp add: s length_padded)
  show "length (stake_types s) \<le> MAX_POINTS" using lt ld by (simp add: s length_padded)
  show "stake_data s \<noteq> [] \<Longrightarrow> length (stake_moves s) = length (stake_data s)"
    by (simp add: s length_padded)
  show "stake_data s \<noteq> [] \<Longrightarrow> length (stake_types s) = length (stake_data s)"
    by (simp add: s length_padded)
  show "stake_data s \<noteq> [] \<Longrightarrow> length (stake_labels s) =
           min (length (stake_data s)) (length (clampArray (as_array (get st ''labels'')) MAX_POINTS))"
    using map_throw_length [OF l] by (simp add: s length_sliced)
qed

lemma wd_block_lengths:
  assumes "wd_block h wd = Some s"
  shows "length (wd_values s) \<le> MAX_POINTS"
    and "length (wd_labels s) \<le> MAX_POINTS"
    and "length (wd_times s) \<le> MAX_POINTS"
    and "wd_values s \<noteq> [] \<Longrightarrow> length (wd_times s) = length (wd_values s)"
    and "wd_values s \<noteq> [] \<Longrightarrow> length (wd_labels s) =
           min (length (wd_values s)) (length (clampArray (as_array (get wd ''labels'')) MAX_POINTS))"
proof -
  from assms obtain labels vals times where
    l: "map_throw (\<lambda>x. toStr h x 48) (clampArray (as_array (get wd ''labels'')) MAX_POINTS) = Some labels" and
    v: "map_throw (toNum h) (clampArray (as_array (get wd ''values'')) MAX_POINTS) = Some vals" and
    t: "map_throw (toNum h) (clampArray (as_array (get wd ''times'')) MAX_POINTS) = Some times" and
    s: "s = \<lparr> wd_labels = slice_last (length vals) labels, wd_values = vals,
             wd_times = unshift_until (length vals) 0 (slice_last (length vals) times) \<rparr>"
    by (auto simp: wd_block_def Let_def split: Option.bind_splits)
  have ll: "length labels \<le> MAX_POINTS" and lv: "length vals \<le> MAX_POINTS"
    and lt: "length times \<le> MAX_POINTS"
    using map_throw_length [OF l] map_throw_length [OF v] map_throw_length [OF t]
      length_clampArray by metis+
  show "length (wd_values s) \<le> MAX_POINTS" using lv by (simp add: s)
  show "length (wd_labels s) \<le> MAX_POINTS" using ll lv by (auto simp: s length_sliced)
  show "length (wd_times s) \<le> MAX_POINTS" using lt lv by (simp add: s length_padded)
  show "wd_values s \<noteq> [] \<Longrightarrow> length (wd_times s) = length (wd_values s)"
    by (simp add: s length_padded)
  show "wd_values s \<noteq> [] \<Longrightarrow> length (wd_labels s) =
           min (length (wd_values s)) (length (clampArray (as_array (get wd ''labels'')) MAX_POINTS))"
    using map_throw_length [OF l] by (simp add: s length_sliced)
qed

lemma nw_block_lengths:
  assumes "nw_block h nw = Some s"
  shows "length (nw_times s) \<le> MAX_POINTS"
    and "length (nw_usd s) \<le> MAX_POINTS"
    and "length (nw_inj s) \<le> MAX_POINTS"
    and "nw_times s \<noteq> [] \<Longrightarrow> length (nw_usd s) = length (nw_times s)"
    and "nw_times s \<noteq> [] \<Longrightarrow> length (nw_inj s) = length (nw_times s)"
proof -
  from assms obtain times usd inj where
    t: "map_throw (toNum h) (clampArray (as_array (get nw ''times'')) MAX_POINTS) = Some times" and
    u: "map_throw (toNum h) (clampArray (as_array (get nw ''usd'')) MAX_POINTS) = Some usd" and
    i: "map_throw (toNum h) (clampArray (as_array (get nw ''inj'')) MAX_POINTS) = Some inj" and
    s: "s = \<lparr> nw_times = times,
             nw_usd = unshift_until (length times) 0 (slice_last (length times) usd),
             nw_inj = unshift_until (length times) 0 (slice_last (length times) inj) \<rparr>"
    by (auto simp: nw_block_def Let_def split: Option.bind_splits)
  have lt: "length times \<le> MAX_POINTS" and lu: "length usd \<le> MAX_POINTS"
    and li: "length inj \<le> MAX_POINTS"
    using map_throw_length [OF t] map_throw_length [OF u] map_throw_length [OF i]
      length_clampArray by metis+
  show "length (nw_times s) \<le> MAX_POINTS" using lt by (simp add: s)
  show "length (nw_usd s) \<le> MAX_POINTS" using lu lt by (simp add: s length_padded)
  show "length (nw_inj s) \<le> MAX_POINTS" using li lt by (simp add: s length_padded)
  show "nw_times s \<noteq> [] \<Longrightarrow> length (nw_usd s) = length (nw_times s)"
    by (simp add: s length_padded)
  show "nw_times s \<noteq> [] \<Longrightarrow> length (nw_inj s) = length (nw_times s)"
    by (simp add: s length_padded)
qed

lemma sanitizePayload_parts:
  assumes "sanitizePayload h p = Some out"
  shows "(if truthy (get p ''stake'') then stake_block h (get p ''stake'')
          else Some \<lparr> stake_labels = [], stake_data = [], stake_moves = [], stake_types = [] \<rparr>)
         = Some (snap_stake out)"
    and "(if truthy (get p ''wd'') then wd_block h (get p ''wd'')
          else Some \<lparr> wd_labels = [], wd_values = [], wd_times = [] \<rparr>) = Some (snap_wd out)"
    and "(if truthy (get p ''nw'') then nw_block h (get p ''nw'')
          else Some \<lparr> nw_times = [], nw_usd = [], nw_inj = [] \<rparr>) = Some (snap_nw out)"
    and "(case as_array (get p ''events'') of Some es \<Rightarrow> events_block h es | None \<Rightarrow> Some [])
         = Some (snap_events out)"
  using assms by (auto simp: sanitizePayload_def split: Option.bind_splits)

lemma sanitize_uneven: "sanitizePayload host0 uneven = Some uneven_clean"
  by (simp add: uneven_def uneven_clean_def host0_def sanitizePayload_def stake_block_def
      wd_block_def nw_block_def map_throw_def toNum_def toStr_def slice_last_def
      unshift_until_eq MAX_POINTS_def)

text \<open>
  C1, as the code has it.  Whenever \<^verbatim>\<open>sanitizePayload\<close> returns, every array of the three
  series has at most \<open>MAX_POINTS\<close> elements.  When the primary array of a series
  (\<^verbatim>\<open>stake.data\<close>, \<^verbatim>\<open>wd.values\<close>, \<^verbatim>\<open>nw.times\<close>) is not empty and has \<open>N\<close> elements, the
  numeric arrays and \<^verbatim>\<open>stake.types\<close> of that series have exactly \<open>N\<close> elements, and a
  labels array has \<open>min N k\<close> elements, where \<open>k\<close> is the number of labels received after
  clamping: labels are cut to the last \<open>N\<close> and never padded.
\<close>

theorem C1_series_lengths:
  assumes "sanitizePayload h p = Some out"
  shows "length (stake_labels (snap_stake out)) \<le> MAX_POINTS
       \<and> length (stake_data (snap_stake out)) \<le> MAX_POINTS
       \<and> length (stake_moves (snap_stake out)) \<le> MAX_POINTS
       \<and> length (stake_types (snap_stake out)) \<le> MAX_POINTS
       \<and> length (wd_labels (snap_wd out)) \<le> MAX_POINTS
       \<and> length (wd_values (snap_wd out)) \<le> MAX_POINTS
       \<and> length (wd_times (snap_wd out)) \<le> MAX_POINTS
       \<and> length (nw_times (snap_nw out)) \<le> MAX_POINTS
       \<and> length (nw_usd (snap_nw out)) \<le> MAX_POINTS
       \<and> length (nw_inj (snap_nw out)) \<le> MAX_POINTS
       \<and> (stake_data (snap_stake out) \<noteq> [] \<longrightarrow>
            length (stake_moves (snap_stake out)) = length (stake_data (snap_stake out))
          \<and> length (stake_types (snap_stake out)) = length (stake_data (snap_stake out))
          \<and> length (stake_labels (snap_stake out)) =
              min (length (stake_data (snap_stake out)))
                  (length (clampArray (as_array (get (get p ''stake'') ''labels'')) MAX_POINTS)))
       \<and> (wd_values (snap_wd out) \<noteq> [] \<longrightarrow>
            length (wd_times (snap_wd out)) = length (wd_values (snap_wd out))
          \<and> length (wd_labels (snap_wd out)) =
              min (length (wd_values (snap_wd out)))
                  (length (clampArray (as_array (get (get p ''wd'') ''labels'')) MAX_POINTS)))
       \<and> (nw_times (snap_nw out) \<noteq> [] \<longrightarrow>
            length (nw_usd (snap_nw out)) = length (nw_times (snap_nw out))
          \<and> length (nw_inj (snap_nw out)) = length (nw_times (snap_nw out)))"
proof -
  note parts = sanitizePayload_parts [OF assms]
  have stake: "length (stake_labels (snap_stake out)) \<le> MAX_POINTS
       \<and> length (stake_data (snap_stake out)) \<le> MAX_POINTS
       \<and> length (stake_moves (snap_stake out)) \<le> MAX_POINTS
       \<and> length (stake_types (snap_stake out)) \<le> MAX_POINTS
       \<and> (stake_data (snap_stake out) \<noteq> [] \<longrightarrow>
            length (stake_moves (snap_stake out)) = length (stake_data (snap_stake out))
          \<and> length (stake_types (snap_stake out)) = length (stake_data (snap_stake out))
          \<and> length (stake_labels (snap_stake out)) =
              min (length (stake_data (snap_stake out)))
                  (length (clampArray (as_array (get (get p ''stake'') ''labels'')) MAX_POINTS)))"
  proof (cases "truthy (get p ''stake'')")
    case True
    with parts(1) have b: "stake_block h (get p ''stake'') = Some (snap_stake out)" by simp
    show ?thesis using stake_block_lengths [OF b] by blast
  next
    case False
    with parts(1) have "snap_stake out =
      \<lparr> stake_labels = [], stake_data = [], stake_moves = [], stake_types = [] \<rparr>" by simp
    then show ?thesis by simp
  qed
  have wd: "length (wd_labels (snap_wd out)) \<le> MAX_POINTS
       \<and> length (wd_values (snap_wd out)) \<le> MAX_POINTS
       \<and> length (wd_times (snap_wd out)) \<le> MAX_POINTS
       \<and> (wd_values (snap_wd out) \<noteq> [] \<longrightarrow>
            length (wd_times (snap_wd out)) = length (wd_values (snap_wd out))
          \<and> length (wd_labels (snap_wd out)) =
              min (length (wd_values (snap_wd out)))
                  (length (clampArray (as_array (get (get p ''wd'') ''labels'')) MAX_POINTS)))"
  proof (cases "truthy (get p ''wd'')")
    case True
    with parts(2) have b: "wd_block h (get p ''wd'') = Some (snap_wd out)" by simp
    show ?thesis using wd_block_lengths [OF b] by blast
  next
    case False
    with parts(2) have "snap_wd out = \<lparr> wd_labels = [], wd_values = [], wd_times = [] \<rparr>"
      by simp
    then show ?thesis by simp
  qed
  have nw: "length (nw_times (snap_nw out)) \<le> MAX_POINTS
       \<and> length (nw_usd (snap_nw out)) \<le> MAX_POINTS
       \<and> length (nw_inj (snap_nw out)) \<le> MAX_POINTS
       \<and> (nw_times (snap_nw out) \<noteq> [] \<longrightarrow>
            length (nw_usd (snap_nw out)) = length (nw_times (snap_nw out))
          \<and> length (nw_inj (snap_nw out)) = length (nw_times (snap_nw out)))"
  proof (cases "truthy (get p ''nw'')")
    case True
    with parts(3) have b: "nw_block h (get p ''nw'') = Some (snap_nw out)" by simp
    show ?thesis using nw_block_lengths [OF b] by blast
  next
    case False
    with parts(3) have "snap_nw out = \<lparr> nw_times = [], nw_usd = [], nw_inj = [] \<rparr>" by simp
    then show ?thesis by simp
  qed
  from stake wd nw show ?thesis by blast
qed

text \<open>C1, witness: the theorem at the payload \<open>uneven\<close>, whose stake series has three data
  points, one label and one move.\<close>

theorem C1_series_lengths_witness:
  "sanitizePayload host0 uneven = Some uneven_clean
   \<and> length (stake_moves (snap_stake uneven_clean)) = 3
   \<and> length (stake_types (snap_stake uneven_clean)) = 3
   \<and> length (stake_labels (snap_stake uneven_clean)) = min 3 1"
proof -
  have e: "sanitizePayload host0 uneven = Some uneven_clean" by (rule sanitize_uneven)
  have d: "stake_data (snap_stake uneven_clean) = [1, 2, 3]"
    by (simp add: uneven_clean_def)
  have k: "length (clampArray (as_array (get (get uneven ''stake'') ''labels'')) MAX_POINTS) = 1"
    by (simp add: uneven_def MAX_POINTS_def)
  from C1_series_lengths [OF e] d k e show ?thesis by simp
qed

text \<open>C1, counterexample to the claim as stated: for \<open>uneven\<close> the withdrawals series comes
  out with one label and two values; for \<open>no_primary\<close> the stake series comes out with one
  move and no data, since \<^verbatim>\<open>slice(-0)\<close> cuts nothing.\<close>

theorem C1_counterexample:
  "map_option snap_wd (sanitizePayload host0 uneven)
     = Some \<lparr> wd_labels = [''a''], wd_values = [4, 5], wd_times = [0, 0] \<rparr>
   \<and> map_option snap_stake (sanitizePayload host0 no_primary)
     = Some \<lparr> stake_labels = [], stake_data = [], stake_moves = [7], stake_types = [] \<rparr>"
proof -
  have "sanitizePayload host0 no_primary
      = Some \<lparr> snap_v = 2, snap_t = 1000,
               snap_stake = \<lparr> stake_labels = [], stake_data = [], stake_moves = [7],
                              stake_types = [] \<rparr>,
               snap_wd = \<lparr> wd_labels = [], wd_values = [], wd_times = [] \<rparr>,
               snap_nw = \<lparr> nw_times = [], nw_usd = [], nw_inj = [] \<rparr>, snap_events = [] \<rparr>"
    by (simp add: no_primary_def host0_def sanitizePayload_def stake_block_def map_throw_def
        toNum_def slice_last_def unshift_until_eq MAX_POINTS_def)
  then show ?thesis by (simp add: sanitize_uneven uneven_clean_def)
qed

section \<open>What a POST stores\<close>

lemma point_post_stores:
  assumes "req_method r = ''POST''"
    and "normalizeAddr h (req_address r) = Some address" and "address \<noteq> []"
    and "readRawBody api r = Some (Some raw)" and "raw \<noteq> []"
    and "json_parse h raw = Some p"
    and "sanitizePayload h p = Some clean"
    and "write_ok st"
  shows "point_handler h api st r =
     (Some (json 200 (P_saved (js_or (blob_url api (''inj-points/'' @ address @ ''/data.json'')) JNull)
                              (snap_t clean))),
      st\<lparr> files := (files st)(''inj-points/'' @ address @ ''/data.json'' \<mapsto> snapshot_text api clean) \<rparr>)"
  using assms by (simp add: point_handler_def Let_def)

lemma sanitize_payload_stake: "sanitizePayload h payload_stake = Some (stake_clean\<lparr> snap_t := date_now h 0 \<rparr>)"
  by (simp add: payload_stake_def stake_clean_def sanitizePayload_def stake_block_def
      map_throw_def toNum_def toStr_def slice_last_def unshift_until_eq MAX_POINTS_def)

lemma normalizeAddr_address0: "normalizeAddr h (JStr address0) = Some address0"
  by (simp add: normalizeAddr_def address0_def js_or_def trim_def is_space_def is_alnum_def)

lemma readRawBody_post_stake: "readRawBody api post_stake = Some (Some body_stake)"
  by (simp add: readRawBody_def post_stake_def on_data_def body_stake_def MAX_BODY_BYTES_def Let_def)

text \<open>
  C2, as the code has it.  A successful POST stores the sanitized snapshot under the key of
  the address.  In its stake series \<^verbatim>\<open>moves\<close> and \<^verbatim>\<open>types\<close>, when shorter than
  \<^verbatim>\<open>data\<close> (\<open>N\<close> elements), are padded on the left up to \<open>N\<close>, with 0 and with the
  string \<^verbatim>\<open>"Stake update"\<close>; \<^verbatim>\<open>labels\<close>, when shorter, are stored as received, without
  padding.  For \<^verbatim>\<open>stake.data = [1,2,3]\<close> and no other stake array the stored
  \<^verbatim>\<open>stake.labels\<close> is empty, \<^verbatim>\<open>stake.moves\<close> is \<^verbatim>\<open>[0,0,0]\<close> and \<^verbatim>\<open>stake.types\<close> holds
  the placeholder three times.
\<close>

theorem C2_stored_stake_arrays:
  assumes post: "req_method r = ''POST''"
    and addr: "normalizeAddr h (req_address r) = Some address" "address \<noteq> []"
    and body: "readRawBody api r = Some (Some raw)" "raw \<noteq> []"
    and parsed: "json_parse h raw = Some p"
    and clean: "sanitizePayload h p = Some clean"
    and stake: "truthy (get p ''stake'')"
    and wr: "write_ok st"
  shows "files (snd (point_handler h api st r)) (''inj-points/'' @ address @ ''/data.json'')
           = Some (snapshot_text api clean)
       \<and> (\<forall>lb. map_throw (\<lambda>x. toStr h x 48)
                 (clampArray (as_array (get (get p ''stake'') ''labels'')) MAX_POINTS) = Some lb
               \<and> length lb \<le> length (stake_data (snap_stake clean))
             \<longrightarrow> stake_labels (snap_stake clean) = lb)
       \<and> (\<forall>mv. map_throw (toNum h)
                 (clampArray (as_array (get (get p ''stake'') ''moves'')) MAX_POINTS) = Some mv
               \<and> length mv \<le> length (stake_data (snap_stake clean))
             \<longrightarrow> stake_moves (snap_stake clean)
                   = replicate (length (stake_data (snap_stake clean)) - length mv) 0 @ mv)
       \<and> (\<forall>ty. map_throw (\<lambda>x. toStr h x 40)
                 (clampArray (as_array (get (get p ''stake'') ''types'')) MAX_POINTS) = Some ty
               \<and> length ty \<le> length (stake_data (snap_stake clean))
             \<longrightarrow> stake_types (snap_stake clean)
                   = replicate (length (stake_data (snap_stake clean)) - length ty) ''Stake update'' @ ty)
       \<and> (get (get p ''stake'') ''data'' = JArr [JNum (Fin 1), JNum (Fin 2), JNum (Fin 3)]
          \<and> as_array (get (get p ''stake'') ''labels'') = None
          \<and> as_array (get (get p ''stake'') ''moves'') = None
          \<and> as_array (get (get p ''stake'') ''types'') = None
          \<longrightarrow> stake_data (snap_stake clean) = [1, 2, 3]
            \<and> stake_labels (snap_stake clean) = []
            \<and> stake_moves (snap_stake clean) = [0, 0, 0]
            \<and> stake_types (snap_stake clean) = [''Stake update'', ''Stake update'', ''Stake update''])"
proof -
  have stored: "files (snd (point_handler h api st r)) (''inj-points/'' @ address @ ''/data.json'')
           = Some (snapshot_text api clean)"
    by (simp add: point_post_stores [OF post addr body parsed clean wr])
  from sanitizePayload_parts(1) [OF clean] stake
  have b: "stake_block h (get p ''stake'') = Some (snap_stake clean)" by simp
  then obtain labels dat moves types where
    l: "map_throw (\<lambda>x. toStr h x 48) (clampArray (as_array (get (get p ''stake'') ''labels'')) MAX_POINTS) = Some labels" and
    d: "map_throw (toNum h) (clampArray (as_array (get (get p ''stake'') ''data'')) MAX_POINTS) = Some dat" and
    m: "map_throw (toNum h) (clampArray (as_array (get (get p ''stake'') ''moves'')) MAX_POINTS) = Some moves" and
    t: "map_throw (\<lambda>x. toStr h x 40) (clampArray (as_array (get (get p ''stake'') ''types'')) MAX_POINTS) = Some types" and
    s: "snap_stake clean = \<lparr> stake_labels = slice_last (length dat) labels, stake_data = dat,
             stake_moves = unshift_until (length dat) 0 (slice_last (length dat) moves),
             stake_types = unshift_until (length dat) ''Stake update'' (slice_last (length dat) types) \<rparr>"
    by (auto simp: stake_block_def Let_def split: Option.bind_splits)
  have short: "\<And>xs :: 'a list. length xs \<le> length dat \<Longrightarrow> slice_last (length dat) xs = xs"
    by (simp add: slice_last_def)
  have labels: "\<forall>lb. map_throw (\<lambda>x. toStr h x 48)
                 (clampArray (as_array (get (get p ''stake'') ''labels'')) MAX_POINTS) = Some lb
               \<and> length lb \<le> length (stake_data (snap_stake clean))
             \<longrightarrow> stake_labels (snap_stake clean) = lb"
    using l by (simp add: s short)
  have moves: "\<forall>mv. map_throw (toNum h)
                 (clampArray (as_array (get (get p ''stake'') ''moves'')) MAX_POINTS) = Some mv
               \<and> length mv \<le> length (stake_data (snap_stake clean))
             \<longrightarrow> stake_moves (snap_stake clean)
                   = replicate (length (stake_data (snap_stake clean)) - length mv) 0 @ mv"
    using m by (simp add: s short unshift_until_eq)
  have types: "\<forall>ty. map_throw (\<lambda>x. toStr h x 40)
                 (clampArray (as_array (get (get p ''stake'') ''types'')) MAX_POINTS) = Some ty
               \<and> length ty \<le> length (stake_data (snap_stake clean))
             \<longrightarrow> stake_types (snap_stake clean)
                   = replicate (length (stake_data (snap_stake clean)) - length ty) ''Stake update'' @ ty"
    using t by (simp add: s short unshift_until_eq)
  have example: "get (get p ''stake'') ''data'' = JArr [JNum (Fin 1), JNum (Fin 2), JNum (Fin 3)]
          \<and> as_array (get (get p ''stake'') ''labels'') = None
          \<and> as_array (get (get p ''stake'') ''moves'') = None
          \<and> as_array (get (get p ''stake'') ''types'') = None
          \<longrightarrow> stake_data (snap_stake clean) = [1, 2, 3]
            \<and> stake_labels (snap_stake clean) = []
            \<and> stake_moves (snap_stake clean) = [0, 0, 0]
            \<and> stake_types (snap_stake clean) = [''Stake update'', ''Stake update'', ''Stake update'']"
    using l d m t
    by (auto simp: s map_throw_def toNum_def MAX_POINTS_def slice_last_def unshift_until_eq)
  from stored labels moves types example show ?thesis by blast
qed

text \<open>C2, witness: the theorem at the request \<open>post_stake\<close>.\<close>

theorem C2_stored_stake_arrays_witness:
  "files (snd (point_handler host_stake api0 store0 post_stake))
         (''inj-points/'' @ address0 @ ''/data.json'') = Some (snapshot_text api0 stake_clean)
   \<and> stake_labels (snap_stake stake_clean) = []
   \<and> stake_types (snap_stake stake_clean) = [''Stake update'', ''Stake update'', ''Stake update'']"
proof -
  have a: "normalizeAddr host_stake (req_address post_stake) = Some address0"
    by (simp add: post_stake_def normalizeAddr_address0)
  have n: "address0 \<noteq> []" by (simp add: address0_def)
  have m: "req_method post_stake = ''POST''" by (simp add: post_stake_def)
  have b: "readRawBody api0 post_stake = Some (Some body_stake)" by (rule readRawBody_post_stake)
  have e: "body_stake \<noteq> []" by (simp add: body_stake_def)
  have p: "json_parse host_stake body_stake = Some payload_stake" by (simp add: host_stake_def)
  have c: "sanitizePayload host_stake payload_stake = Some stake_clean"
    by (simp add: sanitize_payload_stake host_stake_def host0_def stake_clean_def)
  have t: "truthy (get payload_stake ''stake'')" by (simp add: payload_stake_def)
  have w: "write_ok store0" by (simp add: store0_def)
  from C2_stored_stake_arrays [OF m a n b e p c t w] show ?thesis
    by (simp add: stake_clean_def)
qed

text \<open>C2, counterexample to the claim as stated: for \<^verbatim>\<open>stake.data = [1,2,3]\<close> without
  labels the sanitized \<^verbatim>\<open>stake.labels\<close> is the empty array, not three placeholders.\<close>

theorem C2_counterexample:
  "map_option (stake_labels \<circ> snap_stake) (sanitizePayload host0 payload_stake) = Some []"
  by (simp add: sanitize_payload_stake stake_clean_def)

section \<open>The session reducer\<close>

lemma write_back_fresh:
  "find (\<lambda>x. sessionId x = sid) ss = None \<Longrightarrow> sessionId s = sid \<Longrightarrow>
   write_back sid s' (ss @ [s]) = ss @ [s']"
  by (induction ss) (auto split: if_splits)

lemma find_write_back:
  "find (\<lambda>x. sessionId x = sid) ss = Some s \<Longrightarrow> sessionId s' = sid \<Longrightarrow>
   find (\<lambda>x. sessionId x = sid) (write_back sid s' ss) = Some s'"
  by (induction ss) (auto split: if_splits)

lemma length_write_back: "length (write_back sid s' ss) = length ss"
  by (induction ss) auto

lemma find_Some_sessionId:
  "find (\<lambda>x. sessionId x = sid) ss = Some s \<Longrightarrow> sessionId s = sid"
  by (induction ss) (auto split: if_splits)

lemma find_fresh_append:
  "find (\<lambda>x. sessionId x = sid) ss = None \<Longrightarrow> sessionId s = sid \<Longrightarrow>
   find (\<lambda>x. sessionId x = sid) (ss @ [s]) = Some s"
  by (induction ss) (auto split: if_splits)

lemma find_drop_fresh:
  "find (\<lambda>x. sessionId x = sid) ss = None \<Longrightarrow> sessionId s = sid \<Longrightarrow> k \<le> length ss \<Longrightarrow>
   find (\<lambda>x. sessionId x = sid) (drop k (ss @ [s])) = Some s"
proof (induction ss arbitrary: k)
  case Nil
  then show ?case by simp
next
  case (Cons a ss)
  then show ?case by (cases k) (auto simp: find_fresh_append split: if_splits)
qed

lemma cap_fresh:
  assumes "find (\<lambda>x. sessionId x = sid) ss = None" and "sessionId s = sid"
  shows "find (\<lambda>x. sessionId x = sid) (cap (ss @ [s])) = Some s"
    and "cap (ss @ [s]) \<noteq> []" and "last (cap (ss @ [s])) = s"
proof -
  show "find (\<lambda>x. sessionId x = sid) (cap (ss @ [s])) = Some s"
    using assms find_drop_fresh [OF assms, of "Suc (length ss) - MAX_SESSIONS"]
    by (auto simp: cap_def MAX_SESSIONS_def find_fresh_append)
  show "cap (ss @ [s]) \<noteq> []" by (auto simp: cap_def MAX_SESSIONS_def)
  show "last (cap (ss @ [s])) = s" by (auto simp: cap_def MAX_SESSIONS_def)
qed

lemma cap_within: "length ss \<le> MAX_SESSIONS \<Longrightarrow> cap ss = ss"
  by (simp add: cap_def)

lemma length_cap: "length (cap ss) \<le> MAX_SESSIONS"
  by (simp add: cap_def)

lemma Math_max_same: "Math_max (if truthy_num ts then ts else Fin 0) ts = ts"
  by (cases ts) auto

lemma ts_or_same: "ts_or (Some ts) ts = Some ts"
  by simp

lemma last_stored:
  assumes "data \<noteq> []"
  shows "(if sessions_size api data > MAX_BODY_BYTES
             then slice_last (floor07 api (length data)) data else data) \<noteq> []"
    and "last (if sessions_size api data > MAX_BODY_BYTES
             then slice_last (floor07 api (length data)) data else data) = last data"
proof -
  have k: "0 < k \<Longrightarrow> drop (length data - k) data \<noteq> []" for k
    using assms by (cases data) auto
  have l: "0 < k \<Longrightarrow> last (drop (length data - k) data) = last data" for k
    using assms by (cases data) auto
  show "(if sessions_size api data > MAX_BODY_BYTES
             then slice_last (floor07 api (length data)) data else data) \<noteq> []"
    using assms k by (auto simp: slice_last_def)
  show "last (if sessions_size api data > MAX_BODY_BYTES
             then slice_last (floor07 api (length data)) data else data) = last data"
    using assms l by (auto simp: slice_last_def)
qed

text \<open>
  C9.  A \<^verbatim>\<open>beat\<close> for a session id without a record makes the reducer append the record
  with \<^verbatim>\<open>startTs = lastTs = ts\<close>, \<^verbatim>\<open>beats = 1\<close>, an empty page and an empty
  \<^verbatim>\<open>deviceInfo\<close>; the cap keeps it; and when the request passes the checks of the handler
  and the store accepts the write, the response is 200 and the record, as JSON reads it
  back, is the last one of the stored collection, whatever the size fallback trims.
\<close>

theorem C9_beat_creates_record:
  assumes fresh: "find (\<lambda>x. sessionId x = sid) ss = None"
    and beat: "get payload ''type'' = JStr ''beat''"
  shows "reducer h payload sid did ts ss =
           Sessions (ss @ [\<lparr> sessionId = sid, deviceId = did, startTs = Some ts, lastTs = Some ts,
                             endTs = None, beats = 1, page = [], deviceInfo = JObj [],
                             endReason = None \<rparr>])
       \<and> find (\<lambda>x. sessionId x = sid)
            (cap (ss @ [\<lparr> sessionId = sid, deviceId = did, startTs = Some ts, lastTs = Some ts,
                           endTs = None, beats = 1, page = [], deviceInfo = JObj [],
                           endReason = None \<rparr>]))
           = Some \<lparr> sessionId = sid, deviceId = did, startTs = Some ts, lastTs = Some ts,
                    endTs = None, beats = 1, page = [], deviceInfo = JObj [], endReason = None \<rparr>
       \<and> (readJsonOr [] (sessions_doc st) = Some ss
          \<and> ToString h (js_or (get payload ''sessionId'') (JStr [])) = Some sid
          \<and> ToString h (js_or (get payload ''deviceId'') (JStr [])) = Some did
          \<and> ToNumber h (js_or (get payload ''ts'') (JNum (Fin (date_now h 0)))) = Some ts
          \<and> sid \<noteq> [] \<and> did \<noteq> [] \<and> can_write st
          \<longrightarrow> (\<exists>ds. track_session h api st payload
                      = (Some (json 200 T_ok), st\<lparr> sessions_doc := Doc ds \<rparr>)
                  \<and> ds \<noteq> []
                  \<and> last ds = \<lparr> sessionId = sid, deviceId = did, startTs = json_num (Some ts),
                                lastTs = json_num (Some ts), endTs = None, beats = 1, page = [],
                                deviceInfo = JObj [], endReason = None \<rparr>))"
proof -
  let ?new = "\<lparr> sessionId = sid, deviceId = did, startTs = Some ts, lastTs = Some ts,
                endTs = None, beats = 1, page = [], deviceInfo = JObj [], endReason = None \<rparr>"
  have red: "reducer h payload sid did ts ss = Sessions (ss @ [?new])"
    using fresh beat
    by (simp add: reducer_def minimal_def write_back_fresh Math_max_same)
  have kept: "find (\<lambda>x. sessionId x = sid) (cap (ss @ [?new])) = Some ?new"
    by (rule cap_fresh(1) [OF fresh]) simp
  have ne: "cap (ss @ [?new]) \<noteq> []" and la: "last (cap (ss @ [?new])) = ?new"
    using cap_fresh(2,3) [OF fresh, of ?new] by simp_all
  have stored: "readJsonOr [] (sessions_doc st) = Some ss
          \<and> ToString h (js_or (get payload ''sessionId'') (JStr [])) = Some sid
          \<and> ToString h (js_or (get payload ''deviceId'') (JStr [])) = Some did
          \<and> ToNumber h (js_or (get payload ''ts'') (JNum (Fin (date_now h 0)))) = Some ts
          \<and> sid \<noteq> [] \<and> did \<noteq> [] \<and> can_write st
          \<longrightarrow> (\<exists>ds. track_session h api st payload
                      = (Some (json 200 T_ok), st\<lparr> sessions_doc := Doc ds \<rparr>)
                  \<and> ds \<noteq> []
                  \<and> last ds = \<lparr> sessionId = sid, deviceId = did, startTs = json_num (Some ts),
                                lastTs = json_num (Some ts), endTs = None, beats = 1, page = [],
                                deviceInfo = JObj [], endReason = None \<rparr>)"
  proof (intro impI, elim conjE)
    assume a: "readJsonOr [] (sessions_doc st) = Some ss"
      "ToString h (js_or (get payload ''sessionId'') (JStr [])) = Some sid"
      "ToString h (js_or (get payload ''deviceId'') (JStr [])) = Some did"
      "ToNumber h (js_or (get payload ''ts'') (JNum (Fin (date_now h 0)))) = Some ts"
      "sid \<noteq> []" "did \<noteq> []" "can_write st"
    let ?out = "(if sessions_size api (cap (ss @ [?new])) > MAX_BODY_BYTES
             then slice_last (floor07 api (length (cap (ss @ [?new])))) (cap (ss @ [?new]))
             else cap (ss @ [?new]))"
    have o1: "?out \<noteq> []" and o2: "last ?out = ?new"
      using last_stored [OF ne, of api] la by simp_all
    have "track_session h api st payload
            = (Some (json 200 T_ok), st\<lparr> sessions_doc := Doc (map json_session ?out) \<rparr>)"
      using a red by (simp add: track_session_def writeJson_sessions_def reply_def Let_def)
    moreover have "map json_session ?out \<noteq> []" using o1 by simp
    moreover have "last (map json_session ?out) = json_session ?new"
      using o1 o2 by (simp add: last_map)
    moreover have "json_session ?new = \<lparr> sessionId = sid, deviceId = did, startTs = json_num (Some ts),
                                lastTs = json_num (Some ts), endTs = None, beats = 1, page = [],
                                deviceInfo = JObj [], endReason = None \<rparr>"
      by (simp add: json_session_def)
    ultimately show "\<exists>ds. track_session h api st payload
                      = (Some (json 200 T_ok), st\<lparr> sessions_doc := Doc ds \<rparr>)
                  \<and> ds \<noteq> []
                  \<and> last ds = \<lparr> sessionId = sid, deviceId = did, startTs = json_num (Some ts),
                                lastTs = json_num (Some ts), endTs = None, beats = 1, page = [],
                                deviceInfo = JObj [], endReason = None \<rparr>"
      by metis
  qed
  from red kept stored show ?thesis by blast
qed

lemma reducer_end_found:
  assumes "get payload ''type'' = JStr ''end''"
    and "find (\<lambda>x. sessionId x = sid) ss = Some s"
  shows "reducer h payload sid did ts ss =
     (case ToString h (js_or (get payload ''reason'') (JStr ''end'')) of
        None \<Rightarrow> Type_error
      | Some reason \<Rightarrow>
          Sessions (write_back sid
                      (s\<lparr> lastTs := Some (Math_max (ts_or0 (lastTs s)) ts),
                          endTs := ts_or (endTs s) ts, endReason := Some reason \<rparr>) ss))"
  using assms by (simp add: reducer_def split: option.splits)

lemma reducer_end_fresh:
  assumes "get payload ''type'' = JStr ''end''"
    and "find (\<lambda>x. sessionId x = sid) ss = None"
  shows "reducer h payload sid did ts ss =
     (case ToString h (js_or (get payload ''reason'') (JStr ''end'')) of
        None \<Rightarrow> Type_error
      | Some reason \<Rightarrow>
          Sessions (ss @ [\<lparr> sessionId = sid, deviceId = did, startTs = Some ts, lastTs = Some ts,
                            endTs = Some ts, beats = 0, page = [], deviceInfo = JObj [],
                            endReason = Some reason \<rparr>]))"
  using assms
  by (simp add: reducer_def minimal_def write_back_fresh Math_max_same split: option.splits)

text \<open>
  C10.  Every \<^verbatim>\<open>end\<close> event that the reducer applies (it applies every one whose reason
  has a string) leaves the record of its session with \<^verbatim>\<open>endReason\<close> equal to the string
  of \<^verbatim>\<open>payload.reason\<close>, or \<^verbatim>\<open>"end"\<close> when the reason is missing or falsy, whatever
  \<^verbatim>\<open>endReason\<close> and \<^verbatim>\<open>endTs\<close> were before; an \<^verbatim>\<open>endTs\<close> that was already set is kept.
\<close>

theorem C10_endReason_overwritten:
  assumes "get payload ''type'' = JStr ''end''"
    and "ToString h (js_or (get payload ''reason'') (JStr ''end'')) = Some reason"
  shows "\<exists>ss' s'.
           reducer h payload sid did ts ss = Sessions ss'
         \<and> find (\<lambda>x. sessionId x = sid) ss' = Some s'
         \<and> endReason s' = Some reason
         \<and> (\<not> truthy (get payload ''reason'') \<longrightarrow> reason = ''end'')
         \<and> (\<forall>x. get payload ''reason'' = JStr x \<and> x \<noteq> [] \<longrightarrow> reason = x)
         \<and> (\<forall>s e. find (\<lambda>x. sessionId x = sid) ss = Some s \<and> endTs s = Some e \<and> truthy_num e
                \<longrightarrow> endTs s' = Some e)"
proof -
  have d: "\<not> truthy (get payload ''reason'') \<longrightarrow> reason = ''end''"
    using assms(2) by (auto simp: js_or_def)
  have g: "\<forall>x. get payload ''reason'' = JStr x \<and> x \<noteq> [] \<longrightarrow> reason = x"
    using assms(2) by (auto simp: js_or_def)
  show ?thesis
  proof (cases "find (\<lambda>x. sessionId x = sid) ss")
    case None
    let ?new = "\<lparr> sessionId = sid, deviceId = did, startTs = Some ts, lastTs = Some ts,
                  endTs = Some ts, beats = 0, page = [], deviceInfo = JObj [],
                  endReason = Some reason \<rparr>"
    have r: "reducer h payload sid did ts ss = Sessions (ss @ [?new])"
      using reducer_end_fresh [OF assms(1) None, of h did ts] assms(2) by simp
    have f: "find (\<lambda>x. sessionId x = sid) (ss @ [?new]) = Some ?new"
      by (rule find_fresh_append [OF None]) simp
    show ?thesis
      using r f d g None
      by - (rule exI [of _ "ss @ [?new]"], rule exI [of _ ?new], simp)
  next
    case (Some s)
    let ?upd = "s\<lparr> lastTs := Some (Math_max (ts_or0 (lastTs s)) ts),
                    endTs := ts_or (endTs s) ts, endReason := Some reason \<rparr>"
    have r: "reducer h payload sid did ts ss = Sessions (write_back sid ?upd ss)"
      using reducer_end_found [OF assms(1) Some, of h did ts] assms(2) by simp
    have f: "find (\<lambda>x. sessionId x = sid) (write_back sid ?upd ss) = Some ?upd"
      using find_Some_sessionId [OF Some] by (intro find_write_back [OF Some]) simp
    show ?thesis
      using r f d g Some
      by - (rule exI [of _ "write_back sid ?upd ss"], rule exI [of _ ?upd], simp)
  qed
qed

lemma find_map_json_session:
  "find (\<lambda>x. sessionId x = sid) (map json_session xs)
     = map_option json_session (find (\<lambda>x. sessionId x = sid) xs)"
  by (induction xs) (auto simp: json_session_def)

lemma reducer_end_record:
  assumes e: "get payload ''type'' = JStr ''end''"
    and rs: "ToString h (js_or (get payload ''reason'') (JStr ''end'')) = Some reason"
    and within: "length ss \<le> MAX_SESSIONS"
  shows "\<exists>ss' s'. reducer h payload sid did ts ss = Sessions ss'
          \<and> find (\<lambda>x. sessionId x = sid) (cap ss') = Some s'
          \<and> length (cap ss') \<le> MAX_SESSIONS
          \<and> (case find (\<lambda>x. sessionId x = sid) ss of
                None \<Rightarrow> startTs s' = Some ts \<and> endTs s' = Some ts \<and> lastTs s' = Some ts
              | Some s \<Rightarrow> startTs s' = startTs s \<and> endTs s' = ts_or (endTs s) ts
                         \<and> lastTs s' = Some (Math_max (ts_or0 (lastTs s)) ts))"
proof (cases "find (\<lambda>x. sessionId x = sid) ss")
  case None
  let ?new = "\<lparr> sessionId = sid, deviceId = did, startTs = Some ts, lastTs = Some ts,
                endTs = Some ts, beats = 0, page = [], deviceInfo = JObj [],
                endReason = Some reason \<rparr>"
  have r: "reducer h payload sid did ts ss = Sessions (ss @ [?new])"
    using reducer_end_fresh [OF e None, of h did ts] rs by simp
  have f: "find (\<lambda>x. sessionId x = sid) (cap (ss @ [?new])) = Some ?new"
    by (rule cap_fresh(1) [OF None]) simp
  show ?thesis
    using r f None length_cap [of "ss @ [?new]"]
    by - (rule exI [of _ "ss @ [?new]"], rule exI [of _ ?new], simp)
next
  case (Some s)
  let ?upd = "s\<lparr> lastTs := Some (Math_max (ts_or0 (lastTs s)) ts),
                  endTs := ts_or (endTs s) ts, endReason := Some reason \<rparr>"
  have r: "reducer h payload sid did ts ss = Sessions (write_back sid ?upd ss)"
    using reducer_end_found [OF e Some, of h did ts] rs by simp
  have c: "cap (write_back sid ?upd ss) = write_back sid ?upd ss"
    using within by (simp add: cap_within length_write_back)
  have f: "find (\<lambda>x. sessionId x = sid) (write_back sid ?upd ss) = Some ?upd"
    using find_Some_sessionId [OF Some] by (intro find_write_back [OF Some]) simp
  show ?thesis
    using r f Some within
    by - (rule exI [of _ "write_back sid ?upd ss"], rule exI [of _ ?upd],
          simp add: c length_write_back)
qed

text \<open>
  C5, as the code has it, for a collection within the cap and end events whose reason has a
  string.  The reducer applies an \<^verbatim>\<open>end\<close> event and the record of its session is in the
  collection afterwards.  Without an earlier record it has \<^verbatim>\<open>startTs = endTs = lastTs = ts\<close>.
  With an earlier record, \<^verbatim>\<open>lastTs\<close> is \<^verbatim>\<open>Math.max(lastTs || 0, ts)\<close>, the larger of the two
  when both are finite, and \<^verbatim>\<open>endTs\<close> is \<^verbatim>\<open>endTs || ts\<close>: an \<^verbatim>\<open>endTs\<close> that is set, that is
  neither \<^verbatim>\<open>null\<close> nor 0 nor \<^verbatim>\<open>NaN\<close>, is retained.  Hence for two end events: when the
  first carries a finite \<^verbatim>\<open>ts\<close> other than 0 and no end was recorded before, the record
  read back from the store keeps that \<^verbatim>\<open>endTs\<close> under a second end event with any \<^verbatim>\<open>ts\<close>.
\<close>

theorem C5_end_event:
  assumes e: "get payload ''type'' = JStr ''end''"
    and rs: "ToString h (js_or (get payload ''reason'') (JStr ''end'')) = Some reason"
    and within: "length ss \<le> MAX_SESSIONS"
  shows "\<exists>ss' s'. reducer h payload sid did ts ss = Sessions ss'
     \<and> find (\<lambda>x. sessionId x = sid) (cap ss') = Some s'
     \<and> (find (\<lambda>x. sessionId x = sid) ss = None
          \<longrightarrow> startTs s' = Some ts \<and> endTs s' = Some ts \<and> lastTs s' = Some ts)
     \<and> (\<forall>s. find (\<lambda>x. sessionId x = sid) ss = Some s \<longrightarrow>
            lastTs s' = Some (Math_max (ts_or0 (lastTs s)) ts)
          \<and> (\<forall>l t. lastTs s = Some (Fin l) \<and> ts = Fin t \<longrightarrow> lastTs s' = Some (Fin (max l t)))
          \<and> endTs s' = ts_or (endTs s) ts
          \<and> (\<forall>x. endTs s = Some x \<and> truthy_num x \<longrightarrow> endTs s' = Some x))
     \<and> (\<forall>r p2 did2 ts2 reason2.
            ts = Fin r \<and> r \<noteq> 0
          \<and> (\<forall>s x. find (\<lambda>x. sessionId x = sid) ss = Some s \<and> endTs s = Some x \<longrightarrow> \<not> truthy_num x)
          \<and> get p2 ''type'' = JStr ''end''
          \<and> ToString h (js_or (get p2 ''reason'') (JStr ''end'')) = Some reason2
          \<longrightarrow> (\<exists>ss2 s2. reducer h p2 sid did2 ts2 (map json_session (cap ss')) = Sessions ss2
                 \<and> find (\<lambda>x. sessionId x = sid) (cap ss2) = Some s2
                 \<and> endTs s2 = Some (Fin r)))"
proof -
  from reducer_end_record [OF e rs within, of sid did ts] obtain ss' s' where
    red: "reducer h payload sid did ts ss = Sessions ss'"
    and f: "find (\<lambda>x. sessionId x = sid) (cap ss') = Some s'"
    and len: "length (cap ss') \<le> MAX_SESSIONS"
    and c: "(case find (\<lambda>x. sessionId x = sid) ss of
                None \<Rightarrow> startTs s' = Some ts \<and> endTs s' = Some ts \<and> lastTs s' = Some ts
              | Some s \<Rightarrow> startTs s' = startTs s \<and> endTs s' = ts_or (endTs s) ts
                         \<and> lastTs s' = Some (Math_max (ts_or0 (lastTs s)) ts))"
    by blast
  have fresh: "find (\<lambda>x. sessionId x = sid) ss = None
          \<longrightarrow> startTs s' = Some ts \<and> endTs s' = Some ts \<and> lastTs s' = Some ts"
    using c by (auto split: option.splits)
  have found: "\<forall>s. find (\<lambda>x. sessionId x = sid) ss = Some s \<longrightarrow>
            lastTs s' = Some (Math_max (ts_or0 (lastTs s)) ts)
          \<and> (\<forall>l t. lastTs s = Some (Fin l) \<and> ts = Fin t \<longrightarrow> lastTs s' = Some (Fin (max l t)))
          \<and> endTs s' = ts_or (endTs s) ts
          \<and> (\<forall>x. endTs s = Some x \<and> truthy_num x \<longrightarrow> endTs s' = Some x)"
    using c by (auto split: option.splits)
  have first: "ts = Fin r \<and> r \<noteq> 0
          \<and> (\<forall>s x. find (\<lambda>x. sessionId x = sid) ss = Some s \<and> endTs s = Some x \<longrightarrow> \<not> truthy_num x)
          \<longrightarrow> endTs s' = Some (Fin r)" for r
  proof (cases "find (\<lambda>x. sessionId x = sid) ss")
    case None
    then show ?thesis using c by simp
  next
    case (Some s)
    then show ?thesis using c by (cases "endTs s") auto
  qed
  have twice: "\<forall>r p2 did2 ts2 reason2.
            ts = Fin r \<and> r \<noteq> 0
          \<and> (\<forall>s x. find (\<lambda>x. sessionId x = sid) ss = Some s \<and> endTs s = Some x \<longrightarrow> \<not> truthy_num x)
          \<and> get p2 ''type'' = JStr ''end''
          \<and> ToString h (js_or (get p2 ''reason'') (JStr ''end'')) = Some reason2
          \<longrightarrow> (\<exists>ss2 s2. reducer h p2 sid did2 ts2 (map json_session (cap ss')) = Sessions ss2
                 \<and> find (\<lambda>x. sessionId x = sid) (cap ss2) = Some s2
                 \<and> endTs s2 = Some (Fin r))"
  proof (intro allI impI, elim conjE)
    fix r p2 did2 ts2 reason2
    assume a: "ts = Fin r" "r \<noteq> 0"
      "\<forall>s x. find (\<lambda>x. sessionId x = sid) ss = Some s \<and> endTs s = Some x \<longrightarrow> \<not> truthy_num x"
      and e2: "get p2 ''type'' = JStr ''end''"
      and rs2: "ToString h (js_or (get p2 ''reason'') (JStr ''end'')) = Some reason2"
    have e1: "endTs s' = Some (Fin r)" using first [of r] a by blast
    have f1: "find (\<lambda>x. sessionId x = sid) (map json_session (cap ss')) = Some (json_session s')"
      by (simp add: find_map_json_session f)
    have l1: "length (map json_session (cap ss')) \<le> MAX_SESSIONS" using len by simp
    from reducer_end_record [OF e2 rs2 l1, of sid did2 ts2] obtain ss2 s2 where
      "reducer h p2 sid did2 ts2 (map json_session (cap ss')) = Sessions ss2"
      and "find (\<lambda>x. sessionId x = sid) (cap ss2) = Some s2"
      and "endTs s2 = ts_or (endTs (json_session s')) ts2"
      by (auto simp: f1)
    then show "\<exists>ss2 s2. reducer h p2 sid did2 ts2 (map json_session (cap ss')) = Sessions ss2
                 \<and> find (\<lambda>x. sessionId x = sid) (cap ss2) = Some s2
                 \<and> endTs s2 = Some (Fin r)"
      using e1 a(2) by (auto simp: json_session_def)
  qed
  from red f fresh found twice show ?thesis
    by - (rule exI [of _ ss'], rule exI [of _ s'], intro conjI, assumption+)
qed

lemmas track_eval =
  track_session_def reducer_def minimal_def js_or_def writeJson_sessions_def cap_def
  MAX_SESSIONS_def MAX_BODY_BYTES_def json_session_def reply_def json_def track_api0_def

text \<open>
  C9, witness: a beat for the new session \<^verbatim>\<open>s9\<close> sent while \<^verbatim>\<open>s1\<close> is running.
\<close>

theorem C9_beat_creates_record_witness:
  "find (\<lambda>x. sessionId x = ''s9'') [running] = None
   \<and> get beat_first ''type'' = JStr ''beat''
   \<and> reducer host0 beat_first ''s9'' ''d9'' (Fin 300) [running] =
       Sessions [running, \<lparr> sessionId = ''s9'', deviceId = ''d9'', startTs = Some (Fin 300),
                            lastTs = Some (Fin 300), endTs = None, beats = 1, page = [],
                            deviceInfo = JObj [], endReason = None \<rparr>]
   \<and> track_session host0 track_api0 store_running beat_first =
       (Some (json 200 T_ok),
        store_running \<lparr> sessions_doc :=
          Doc [running, \<lparr> sessionId = ''s9'', deviceId = ''d9'', startTs = Some (Fin 300),
                          lastTs = Some (Fin 300), endTs = None, beats = 1, page = [],
                          deviceInfo = JObj [], endReason = None \<rparr>] \<rparr>)"
proof -
  have f: "find (\<lambda>x. sessionId x = ''s9'') [running] = None" by (simp add: running_def)
  have b: "get beat_first ''type'' = JStr ''beat''" by (simp add: beat_first_def)
  have t: "track_session host0 track_api0 store_running beat_first =
       (Some (json 200 T_ok),
        store_running \<lparr> sessions_doc :=
          Doc [running, \<lparr> sessionId = ''s9'', deviceId = ''d9'', startTs = Some (Fin 300),
                          lastTs = Some (Fin 300), endTs = None, beats = 1, page = [],
                          deviceInfo = JObj [], endReason = None \<rparr>] \<rparr>)"
    by (simp add: track_eval beat_first_def store_running_def running_def)
  from C9_beat_creates_record [OF f b, of host0 "''d9''" "Fin 300"] f b t show ?thesis by simp
qed

text \<open>
  C10, witness: a second end without a reason on a session ended earlier with the reason
  \<^verbatim>\<open>"close"\<close>: the reason becomes \<^verbatim>\<open>"end"\<close>, \<^verbatim>\<open>endTs\<close> stays 250.
\<close>

theorem C10_endReason_overwritten_witness:
  "get end_second ''type'' = JStr ''end''
   \<and> ToString host0 (js_or (get end_second ''reason'') (JStr ''end'')) = Some ''end''
   \<and> endReason ended = Some ''close'' \<and> endTs ended = Some (Fin 250)
   \<and> (\<exists>ss' s'. reducer host0 end_second ''s1'' ''d1'' (Fin 900) [ended] = Sessions ss'
          \<and> find (\<lambda>x. sessionId x = ''s1'') ss' = Some s'
          \<and> endReason s' = Some ''end'' \<and> endTs s' = Some (Fin 250))"
proof -
  have e: "get end_second ''type'' = JStr ''end''" by (simp add: end_second_def)
  have r: "ToString host0 (js_or (get end_second ''reason'') (JStr ''end'')) = Some ''end''"
    by (simp add: end_second_def js_or_def)
  have f: "find (\<lambda>x. sessionId x = ''s1'') [ended] = Some ended"
    and t: "endTs ended = Some (Fin 250)" and c: "endReason ended = Some ''close''"
    by (simp_all add: ended_def running_def)
  from C10_endReason_overwritten [OF e r, of "''s1''" "''d1''" "Fin 900" "[ended]"]
  obtain ss' s' where
    "reducer host0 end_second ''s1'' ''d1'' (Fin 900) [ended] = Sessions ss'"
    "find (\<lambda>x. sessionId x = ''s1'') ss' = Some s'" "endReason s' = Some ''end''"
    "\<forall>s e. find (\<lambda>x. sessionId x = ''s1'') [ended] = Some s \<and> endTs s = Some e \<and> truthy_num e
        \<longrightarrow> endTs s' = Some e"
    by blast
  with f t have "\<exists>ss' s'. reducer host0 end_second ''s1'' ''d1'' (Fin 900) [ended] = Sessions ss'
          \<and> find (\<lambda>x. sessionId x = ''s1'') ss' = Some s'
          \<and> endReason s' = Some ''end'' \<and> endTs s' = Some (Fin 250)"
    by (metis truthy_num.simps(2) zero_neq_numeral)
  with e r t c show ?thesis by blast
qed

text \<open>
  C5, witness: the running session \<^verbatim>\<open>s1\<close> ended at 250 and ended again at 900.
\<close>

theorem C5_end_event_witness:
  "get end_first ''type'' = JStr ''end''
   \<and> ToString host0 (js_or (get end_first ''reason'') (JStr ''end'')) = Some ''close''
   \<and> length [running] \<le> MAX_SESSIONS
   \<and> reducer host0 end_first ''s1'' ''d1'' (Fin 250) [running] = Sessions [ended]
   \<and> get end_second ''type'' = JStr ''end''
   \<and> ToString host0 (js_or (get end_second ''reason'') (JStr ''end'')) = Some ''end''
   \<and> (\<exists>ss2 s2. reducer host0 end_second ''s1'' ''d1'' (Fin 900) (map json_session (cap [ended]))
                  = Sessions ss2
          \<and> find (\<lambda>x. sessionId x = ''s1'') (cap ss2) = Some s2
          \<and> endTs s2 = Some (Fin 250))"
proof -
  have e: "get end_first ''type'' = JStr ''end''" by (simp add: end_first_def)
  have rs: "ToString host0 (js_or (get end_first ''reason'') (JStr ''end'')) = Some ''close''"
    by (simp add: end_first_def js_or_def)
  have w: "length [running] \<le> MAX_SESSIONS" by (simp add: MAX_SESSIONS_def)
  have r: "reducer host0 end_first ''s1'' ''d1'' (Fin 250) [running] = Sessions [ended]"
    by (simp add: track_eval end_first_def ended_def running_def)
  have e2: "get end_second ''type'' = JStr ''end''" by (simp add: end_second_def)
  have rs2: "ToString host0 (js_or (get end_second ''reason'') (JStr ''end'')) = Some ''end''"
    by (simp add: end_second_def js_or_def)
  have n: "\<forall>s x. find (\<lambda>x. sessionId x = ''s1'') [running] = Some s \<and> endTs s = Some x
             \<longrightarrow> \<not> truthy_num x"
    by (simp add: running_def)
  from C5_end_event [OF e rs w, of "''s1''" "''d1''" "Fin 250"] r obtain s' where
    "\<forall>r p2 did2 ts2 reason2.
        Fin 250 = Fin r \<and> r \<noteq> 0
      \<and> (\<forall>s x. find (\<lambda>x. sessionId x = ''s1'') [running] = Some s \<and> endTs s = Some x
                 \<longrightarrow> \<not> truthy_num x)
      \<and> get p2 ''type'' = JStr ''end''
      \<and> ToString host0 (js_or (get p2 ''reason'') (JStr ''end'')) = Some reason2
      \<longrightarrow> (\<exists>ss2 s2. reducer host0 p2 ''s1'' did2 ts2 (map json_session (cap [ended])) = Sessions ss2
             \<and> find (\<lambda>x. sessionId x = ''s1'') (cap ss2) = Some s2 \<and> endTs s2 = Some (Fin r))"
    by auto
  from this [rule_format, of 250 end_second "''end''" "''d1''" "Fin 900"] n e2 rs2
  have "\<exists>ss2 s2. reducer host0 end_second ''s1'' ''d1'' (Fin 900) (map json_session (cap [ended]))
                  = Sessions ss2
          \<and> find (\<lambda>x. sessionId x = ''s1'') (cap ss2) = Some s2
          \<and> endTs s2 = Some (Fin 250)"
    by simp
  with e rs w r e2 rs2 show ?thesis by blast
qed

text \<open>
  C5, counterexample to the claim as stated: an end event whose \<^verbatim>\<open>ts\<close> is the string
  \<^verbatim>\<open>"0"\<close> is stored with \<^verbatim>\<open>endTs = 0\<close>, and a second end event with \<^verbatim>\<open>ts = 5\<close> for
  the same session replaces it: the stored \<^verbatim>\<open>endTs\<close> is 5.
\<close>

theorem C5_counterexample:
  "sessions_doc (snd (track_session host0 track_api0 store_empty end_zero)) = Doc [zero_ended]
   \<and> sessions_doc (snd (track_session host0 track_api0
        (snd (track_session host0 track_api0 store_empty end_zero)) end_five))
     = Doc [zero_ended \<lparr> lastTs := Some (Fin 5), endTs := Some (Fin 5) \<rparr>]"
proof -
  have a: "track_session host0 track_api0 store_empty end_zero =
      (Some (json 200 T_ok), store_empty \<lparr> sessions_doc := Doc [zero_ended] \<rparr>)"
    by (simp add: track_eval end_zero_def store_empty_def zero_ended_def host0_def)
  have b: "sessions_doc (snd (track_session host0 track_api0
       (store_empty \<lparr> sessions_doc := Doc [zero_ended] \<rparr>) end_five))
     = Doc [zero_ended \<lparr> lastTs := Some (Fin 5), endTs := Some (Fin 5) \<rparr>]"
    by (simp add: track_eval end_five_def store_empty_def zero_ended_def host0_def)
  show ?thesis by (simp add: a b)
qed

text \<open>
  C3, on the tracking endpoint: a GET while the sessions document cannot be parsed is
  answered with status 500 and the message of the exception, not with the default
  collection.
\<close>

theorem C3_tracking_get_corrupt:
  "track_handler h api (st\<lparr> sessions_doc := Bad_json \<rparr>) (r\<lparr> req_method := ''GET'' \<rparr>)
     = (Some \<lparr> res_status = 500, res_body = T_exception \<rparr>, st\<lparr> sessions_doc := Bad_json \<rparr>)"
  by (simp add: track_handler_def reply_def json_def)

text \<open>A \<^verbatim>\<open>start\<close> event for a session that has a record: \<^verbatim>\<open>startTs\<close> stays when it is
  set, \<^verbatim>\<open>lastTs\<close> becomes the \<^verbatim>\<open>ts\<close> of the event, whatever it was.\<close>

lemma reducer_start_retry:
  assumes "get payload ''type'' = JStr ''start''"
    and "find (\<lambda>x. sessionId x = sid) ss = Some s"
  shows "reducer h payload sid did ts ss =
           Sessions (write_back sid (s\<lparr> startTs := ts_or (startTs s) ts, lastTs := Some ts \<rparr>) ss)"
  using assms by (simp add: reducer_def)

text \<open>
  C4, at a retried start: the session \<^verbatim>\<open>s1\<close> has \<^verbatim>\<open>lastTs = 200\<close>; a \<^verbatim>\<open>start\<close> event
  for it with \<^verbatim>\<open>ts = 150\<close> leaves \<^verbatim>\<open>startTs\<close> at 100 and sets \<^verbatim>\<open>lastTs\<close> to 150, in the
  reducer and in the stored collection.
\<close>

theorem C4_start_retry_lowers_lastTs:
  "reducer h start_retry ''s1'' ''d1'' (Fin 150) [running]
     = Sessions [running\<lparr> lastTs := Some (Fin 150) \<rparr>]
   \<and> sessions_doc (snd (track_session h track_api0 store_running start_retry))
     = Doc [running\<lparr> lastTs := Some (Fin 150) \<rparr>]"
  by (simp add: track_eval start_retry_def running_def store_running_def)

section \<open>Events: one per id, ordered by time\<close>

lemma js_insort_cmp_ts: "js_insort cmp_ts x ys = insort_key ev_ts x ys"
  by (induction ys) (auto simp: cmp_ts_def or0_def)

lemma js_sort_cmp_ts: "js_sort cmp_ts xs = sort_key ev_ts xs"
proof -
  have "js_insort cmp_ts = insort_key ev_ts"
    by (intro ext) (rule js_insort_cmp_ts)
  then show ?thesis by (simp add: js_sort_def sort_key_def)
qed

lemma clampArray_drop: "clampArray (Some xs) mx = drop (length xs - mx) xs"
  by simp

lemma map_of_Map_set: "map_of (Map_set k v m) = (map_of m)(k \<mapsto> v)"
  by (induction m) (auto simp: fun_upd_twist)

lemma keys_Map_set: "set (map fst (Map_set k v m)) = insert k (set (map fst m))"
proof -
  have "dom (map_of (Map_set k v m)) = insert k (dom (map_of m))"
    by (simp add: map_of_Map_set)
  then show ?thesis by (simp add: dom_map_of_conv_image_fst)
qed

lemma distinct_Map_set: "distinct (map fst m) \<Longrightarrow> distinct (map fst (Map_set k v m))"
  by (induction m) (auto simp: keys_Map_set [simplified])

lemma Map_set_new: "k \<notin> set (map fst m) \<Longrightarrow> Map_set k v m = m @ [(k, v)]"
  by (induction m) auto

lemma Map_set_old: "k \<in> set (map fst m) \<Longrightarrow> map fst (Map_set k v m) = map fst m"
proof (induction m)
  case Nil
  then show ?case by simp
next
  case (Cons a m)
  show ?case
  proof (cases "fst a = k")
    case True
    then show ?thesis by (cases a) simp
  next
    case False
    with Cons.prems have "k \<in> set (map fst m)" by auto
    from Cons.IH [OF this] False show ?thesis by (cases a) simp
  qed
qed

lemma keyed_Map_set:
  "\<forall>(k', v') \<in> set m. ev_id v' = k' \<Longrightarrow> \<forall>(k', v') \<in> set (Map_set (ev_id x) x m). ev_id v' = k'"
  by (induction m) (auto split: if_splits)

lemma dedup_set_each: "dedup xs = map snd (set_each [] xs)"
  by (simp add: dedup_def)

lemma distinct_set_each: "distinct (map fst m) \<Longrightarrow> distinct (map fst (set_each m xs))"
  by (induction xs arbitrary: m) (auto simp: distinct_Map_set)

lemma keyed_set_each:
  "\<forall>(k, v) \<in> set m. ev_id v = k \<Longrightarrow> \<forall>(k, v) \<in> set (set_each m xs). ev_id v = k"
proof (induction xs arbitrary: m)
  case Nil
  then show ?case by simp
next
  case (Cons x xs)
  show ?case using Cons.IH [OF keyed_Map_set [OF Cons.prems]] by simp
qed

lemma keys_set_each: "set (map fst (set_each m xs)) = set (map fst m) \<union> ev_id ` set xs"
  by (induction xs arbitrary: m) (auto simp: keys_Map_set [simplified])

lemma map_of_set_each:
  "map_of (set_each m xs) i =
     (case filter (\<lambda>x. ev_id x = i) xs of [] \<Rightarrow> map_of m i | y # ys \<Rightarrow> Some (last (y # ys)))"
proof (induction xs arbitrary: m)
  case Nil
  then show ?case by simp
next
  case (Cons x xs)
  show ?case
    by (simp add: Cons.IH map_of_Map_set split: list.splits)
qed

lemma ids_dedup: "map ev_id (dedup xs) = map fst (set_each [] xs)"
proof -
  have "\<forall>(k, v) \<in> set (set_each [] xs). ev_id v = k" by (rule keyed_set_each) simp
  then show ?thesis by (auto simp: dedup_set_each)
qed

lemma distinct_dedup: "distinct (map ev_id (dedup xs))"
  by (simp add: ids_dedup distinct_set_each)

lemma set_ids_dedup: "ev_id ` set (dedup xs) = ev_id ` set xs"
  using keys_set_each [of "[]" xs] ids_dedup [of xs] by (metis empty_set list.simps(8) set_map sup_bot.left_neutral)

lemma dedup_last:
  assumes "e \<in> set (dedup xs)"
  shows "filter (\<lambda>x. ev_id x = ev_id e) xs \<noteq> [] \<and> e = last (filter (\<lambda>x. ev_id x = ev_id e) xs)"
proof -
  from assms obtain k where kv: "(k, e) \<in> set (set_each [] xs)" by (auto simp: dedup_set_each)
  have "\<forall>(k, v) \<in> set (set_each [] xs). ev_id v = k" by (rule keyed_set_each) simp
  with kv have k: "k = ev_id e" by auto
  have "distinct (map fst (set_each [] xs))" by (rule distinct_set_each) simp
  with kv k have "map_of (set_each [] xs) (ev_id e) = Some e" by simp
  then show ?thesis by (auto simp: map_of_set_each split: list.splits)
qed

lemma remdups_append_dup:
  "k \<in> set B \<Longrightarrow> remdups (A @ k # B) = remdups (A @ B)"
  by (induction A) auto

lemma keys_order_set_each:
  "map fst (set_each m xs) = rev (remdups (rev (map fst m @ map ev_id xs)))" if "distinct (map fst m)"
  using that
proof (induction xs arbitrary: m)
  case Nil
  then show ?case by (simp add: distinct_remdups_id)
next
  case (Cons x xs)
  have d: "distinct (map fst (Map_set (ev_id x) x m))" by (rule distinct_Map_set [OF Cons.prems])
  show ?case
  proof (cases "ev_id x \<in> set (map fst m)")
    case True
    have "map fst (set_each m (x # xs))
            = rev (remdups (rev (map fst m @ map ev_id xs)))"
      using Cons.IH [OF d] by (simp add: Map_set_old [OF True])
    also have "\<dots> = rev (remdups (rev (map fst m @ map ev_id (x # xs))))"
      using True remdups_append_dup [of "ev_id x" "rev (map fst m)" "rev (map ev_id xs)"]
      by simp
    finally show ?thesis .
  next
    case False
    then show ?thesis using Cons.IH [OF d] by (simp add: Map_set_new)
  qed
qed

lemma ids_dedup_first: "map ev_id (dedup xs) = rev (remdups (rev (map ev_id xs)))"
  using keys_order_set_each [of "[]" xs] by (simp add: ids_dedup)

lemma events_block_eq:
  "events_block h es = Some out \<longleftrightarrow>
     (\<exists>cleaned. clean_events h es = Some cleaned
        \<and> out = drop (length (dedup cleaned) - MAX_EVENTS) (sort_key ev_ts (dedup cleaned)))"
  by (auto simp: events_block_def js_sort_cmp_ts split: Option.bind_splits)

text \<open>The string of a value depends on the runtime through number formatting only.\<close>

lemma ToString_host: "fmt_num h' = fmt_num h \<Longrightarrow> ToString h' v = ToString h v"
proof (induction h v rule: ToString.induct)
  case (6 h xs)
  have "map (\<lambda>x. if x = JUndefined \<or> x = JNull then Some [] else ToString h' x) xs
      = map (\<lambda>x. if x = JUndefined \<or> x = JNull then Some [] else ToString h x) xs"
    using 6 by (intro map_cong) auto
  then show ?case by (simp only: ToString.simps)
next
  case (4 h n)
  then show ?case by (cases n) simp_all
qed simp_all

lemma ToString_clock [simp]: "ToString (h\<lparr> date_now := c \<rparr>) v = ToString h v"
  by (rule ToString_host) simp

lemma ToNumber_clock [simp]: "ToNumber (h\<lparr> date_now := c \<rparr>) v = ToNumber h v"
  by (cases v) (simp_all del: ToString.simps)

lemma sanitizeEvent_clock:
  assumes "toNum h (get e ''ts'') = Some r" and "r \<noteq> 0"
  shows "sanitizeEvent (h\<lparr> date_now := c \<rparr>) now' e = sanitizeEvent h now e"
  using assms by (simp add: sanitizeEvent_def toNum_def toStr_def)

lemma clean_events_clock:
  assumes "\<forall>e \<in> set es. \<exists>r. toNum h (get e ''ts'') = Some r \<and> r \<noteq> 0"
  shows "clean_events (h\<lparr> date_now := c \<rparr>) es = clean_events h es"
proof -
  have "map (\<lambda>(i, e). sanitizeEvent (h\<lparr> date_now := c \<rparr>) (date_now (h\<lparr> date_now := c \<rparr>) i) e)
            (enumerate 0 es)
      = map (\<lambda>(i, e). sanitizeEvent h (date_now h i) e) (enumerate 0 es)"
  proof (intro map_cong refl)
    fix p assume "p \<in> set (enumerate 0 es)"
    then have "fst p < length es" and "es ! fst p = snd p"
      by (auto simp: in_set_enumerate_eq)
    then have "snd p \<in> set es" by (metis nth_mem)
    with assms obtain r where "toNum h (get (snd p) ''ts'') = Some r" "r \<noteq> 0" by blast
    from sanitizeEvent_clock [OF this]
    show "(case p of (i, e) \<Rightarrow> sanitizeEvent (h\<lparr> date_now := c \<rparr>) (date_now (h\<lparr> date_now := c \<rparr>) i) e)
        = (case p of (i, e) \<Rightarrow> sanitizeEvent h (date_now h i) e)"
      by (cases p) simp
  qed
  then show ?thesis unfolding clean_events_def map_throw_def by (rule arg_cong)
qed

lemma events_block_abc:
  "events_block h abc_events = Some [plain_event ''b'' 3, plain_event ''a'' 5, plain_event ''c'' 5]"
  by (simp add: events_block_def clean_events_def map_throw_def enumerate_eq_zip abc_events_def
      sanitizeEvent_def toNum_def toStr_def js_or_def dedup_def js_sort_def cmp_ts_def or0_def
      plain_event_def MAX_EVENTS_def upt_rec)

text \<open>The events that the events block returns: order and ties.\<close>

lemma events_block_sorted_stable:
  assumes "events_block h es = Some out"
  shows "\<exists>cleaned. clean_events h es = Some cleaned
       \<and> sorted (map ev_ts out)
       \<and> (\<forall>t. suffix (filter (\<lambda>e. ev_ts e = t) out) (filter (\<lambda>e. ev_ts e = t) (dedup cleaned)))
       \<and> (length (dedup cleaned) \<le> MAX_EVENTS \<longrightarrow>
            (\<forall>t. filter (\<lambda>e. ev_ts e = t) out = filter (\<lambda>e. ev_ts e = t) (dedup cleaned)))
       \<and> map ev_id (dedup cleaned) = rev (remdups (rev (map ev_id cleaned)))
       \<and> ((\<forall>e \<in> set es. \<exists>r. toNum h (get e ''ts'') = Some r \<and> r \<noteq> 0) \<longrightarrow>
            (\<forall>c. events_block (h\<lparr> date_now := c \<rparr>) es = Some out))
       \<and> map_option (map ev_id) (events_block h abc_events) = Some [''b'', ''a'', ''c'']"
proof -
  from assms obtain cleaned where
    c: "clean_events h es = Some cleaned"
    and out: "out = drop (length (dedup cleaned) - MAX_EVENTS) (sort_key ev_ts (dedup cleaned))"
    by (auto simp: events_block_eq)
  have srt: "sorted (map ev_ts out)"
    unfolding out drop_map [symmetric] by (intro sorted_wrt_drop) (rule sorted_sort_key)
  have stab: "\<forall>t. suffix (filter (\<lambda>e. ev_ts e = t) out) (filter (\<lambda>e. ev_ts e = t) (dedup cleaned))"
  proof
    fix t
    have "suffix (filter (\<lambda>e. ev_ts e = t) out)
                 (filter (\<lambda>e. ev_ts e = t) (sort_key ev_ts (dedup cleaned)))"
      unfolding out by (intro filter_mono_suffix suffix_drop)
    then show "suffix (filter (\<lambda>e. ev_ts e = t) out) (filter (\<lambda>e. ev_ts e = t) (dedup cleaned))"
      by (simp add: sort_key_stable)
  qed
  have full: "length (dedup cleaned) \<le> MAX_EVENTS \<longrightarrow>
            (\<forall>t. filter (\<lambda>e. ev_ts e = t) out = filter (\<lambda>e. ev_ts e = t) (dedup cleaned))"
    by (simp add: out sort_key_stable)
  have clock: "(\<forall>e \<in> set es. \<exists>r. toNum h (get e ''ts'') = Some r \<and> r \<noteq> 0) \<longrightarrow>
            (\<forall>c. events_block (h\<lparr> date_now := c \<rparr>) es = Some out)"
    using assms by (auto simp: events_block_def clean_events_clock)
  have ex: "map_option (map ev_id) (events_block h abc_events) = Some [''b'', ''a'', ''c'']"
    by (simp add: events_block_abc plain_event_def)
  from c srt stab full ids_dedup_first [of cleaned] clock ex show ?thesis
    by - (rule exI [of _ cleaned], intro conjI, assumption+)
qed

lemma length_dedup: "length (dedup xs) = card (ev_id ` set xs)"
proof -
  have "length (dedup xs) = length (map ev_id (dedup xs))" by simp
  also have "\<dots> = card (set (map ev_id (dedup xs)))"
    by (rule distinct_card [symmetric]) (rule distinct_dedup)
  also have "\<dots> = card (ev_id ` set xs)" by (simp add: set_ids_dedup)
  finally show ?thesis .
qed

lemma distinct_ids_sorted: "distinct (map ev_id (sort_key ev_ts xs)) = distinct (map ev_id xs)"
  by (simp add: distinct_map)

lemma one_per_id:
  "distinct (map ev_id xs) \<Longrightarrow> length (filter (\<lambda>e. ev_id e = i) xs) = (if i \<in> ev_id ` set xs then 1 else 0)"
  by (induction xs) auto

text \<open>The events that the events block returns: one per id, the last one sent.\<close>

lemma events_block_upsert:
  assumes "events_block h es = Some out"
  shows "\<exists>cleaned. clean_events h es = Some cleaned
       \<and> distinct (map ev_id out)
       \<and> (\<forall>i. length (filter (\<lambda>e. ev_id e = i) out) \<le> 1)
       \<and> (\<forall>e \<in> set out. e = last (filter (\<lambda>x. ev_id x = ev_id e) cleaned))
       \<and> ev_id ` set out \<subseteq> ev_id ` set cleaned
       \<and> (card (ev_id ` set cleaned) \<le> MAX_EVENTS \<longrightarrow>
            (\<forall>x \<in> set cleaned. length (filter (\<lambda>e. ev_id e = ev_id x) out) = 1))"
proof -
  from assms obtain cleaned where
    c: "clean_events h es = Some cleaned"
    and out: "out = drop (length (dedup cleaned) - MAX_EVENTS) (sort_key ev_ts (dedup cleaned))"
    by (auto simp: events_block_eq)
  have sub: "set out \<subseteq> set (dedup cleaned)"
    using set_drop_subset [of "length (dedup cleaned) - MAX_EVENTS" "sort_key ev_ts (dedup cleaned)"]
    by (simp add: out)
  have dist: "distinct (map ev_id out)"
    unfolding out drop_map [symmetric]
    by (intro distinct_drop) (simp add: distinct_ids_sorted distinct_dedup)
  have most: "\<forall>i. length (filter (\<lambda>e. ev_id e = i) out) \<le> 1"
    by (simp add: one_per_id [OF dist])
  have lst: "\<forall>e \<in> set out. e = last (filter (\<lambda>x. ev_id x = ev_id e) cleaned)"
    using sub dedup_last by blast
  have ids: "ev_id ` set out \<subseteq> ev_id ` set cleaned"
    using sub set_ids_dedup [of cleaned] by blast
  have all: "card (ev_id ` set cleaned) \<le> MAX_EVENTS \<longrightarrow>
            (\<forall>x \<in> set cleaned. length (filter (\<lambda>e. ev_id e = ev_id x) out) = 1)"
  proof (intro impI ballI)
    fix x assume le: "card (ev_id ` set cleaned) \<le> MAX_EVENTS" and x: "x \<in> set cleaned"
    from le have "out = sort_key ev_ts (dedup cleaned)" by (simp add: out length_dedup)
    then have "ev_id ` set out = ev_id ` set cleaned" by (simp add: set_ids_dedup)
    with x have "ev_id x \<in> ev_id ` set out" by blast
    then show "length (filter (\<lambda>e. ev_id e = ev_id x) out) = 1"
      by (simp add: one_per_id [OF dist])
  qed
  from c dist most lst ids all show ?thesis
    by - (rule exI [of _ cleaned], intro conjI, assumption+)
qed

lemma set_each_fresh:
  "distinct (map fst m @ map ev_id xs) \<Longrightarrow> set_each m xs = m @ map (\<lambda>e. (ev_id e, e)) xs"
proof (induction xs arbitrary: m)
  case Nil
  then show ?case by simp
next
  case (Cons x xs)
  from Cons.prems have new: "ev_id x \<notin> set (map fst m)" by auto
  have "distinct (map fst (m @ [(ev_id x, x)]) @ map ev_id xs)" using Cons.prems by auto
  from Cons.IH [OF this] show ?case by (simp add: Map_set_new [OF new])
qed

lemma dedup_distinct: "distinct (map ev_id xs) \<Longrightarrow> dedup xs = xs"
  using set_each_fresh [of "[]" xs] by (simp add: dedup_def comp_def)

lemma dedup_repeat: "dedup (x # x # xs) = dedup (x # xs)"
  by (simp add: dedup_def)

lemma those_map_Some: "those (map (\<lambda>x. Some (f x)) xs) = Some (map f xs)"
  by (induction xs) auto

lemma clean_events_total:
  assumes "\<And>now e. e \<in> set es \<Longrightarrow> sanitizeEvent h now e = Some (g e)"
  shows "clean_events h es = Some (map g es)"
proof -
  have "map (\<lambda>(i, e). sanitizeEvent h (date_now h i) e) (enumerate 0 es)
      = map (\<lambda>p. Some ((g \<circ> snd) p)) (enumerate 0 es)"
  proof (intro map_cong refl)
    fix p assume "p \<in> set (enumerate 0 es)"
    then have "fst p < length es" and "es ! fst p = snd p"
      by (auto simp: in_set_enumerate_eq)
    then have "snd p \<in> set es" by (metis nth_mem)
    from assms [OF this]
    show "(case p of (i, e) \<Rightarrow> sanitizeEvent h (date_now h i) e) = Some ((g \<circ> snd) p)"
      by (cases p) simp
  qed
  then have "clean_events h es = those (map (\<lambda>p. Some ((g \<circ> snd) p)) (enumerate 0 es))"
    unfolding clean_events_def map_throw_def by (rule arg_cong)
  also have "\<dots> = Some (map (g \<circ> snd) (enumerate 0 es))" by (rule those_map_Some)
  also have "map (g \<circ> snd) (enumerate 0 es) = map g es"
    by (simp add: enumerate_eq_zip flip: map_map)
  finally show ?thesis .
qed

lemma sanitize_twice: "sanitizeEvent h now twice = Some (plain_event ''a'' 1)"
  by (simp add: sanitizeEvent_def twice_def toNum_def toStr_def js_or_def plain_event_def)

lemma sanitize_flood_event:
  "sanitizeEvent h now (flood_event k) = Some (plain_event (id4 k) (2 + real k))"
proof -
  have "2 + real k \<noteq> 0" by (simp add: add_nonneg_eq_0_iff)
  then show ?thesis
    by (simp add: sanitizeEvent_def flood_event_def toNum_def toStr_def js_or_def plain_event_def
        id4_def)
qed

lemma clean_flood:
  "clean_events h flood = Some (plain_event ''a'' 1 # plain_event ''a'' 1 #
      map (\<lambda>k. plain_event (id4 k) (2 + real k)) [0..<1200])"
proof -
  have "clean_events h flood = Some (map flood_clean flood)"
  proof (rule clean_events_total)
    fix now e assume "e \<in> set flood"
    then consider "e = twice" | k where "e = flood_event k" by (auto simp: flood_def)
    then show "sanitizeEvent h now e = Some (flood_clean e)"
    proof cases
      case 1
      then show ?thesis by (simp add: sanitize_twice) (simp add: twice_def flood_clean_def)
    next
      case 2
      then show ?thesis
        by (simp add: sanitize_flood_event) (simp add: flood_event_def flood_clean_def)
    qed
  qed
  also have "map flood_clean flood = plain_event ''a'' 1 # plain_event ''a'' 1 #
      map (\<lambda>k. plain_event (id4 k) (2 + real k)) [0..<1200]"
    by (simp add: flood_def twice_def flood_event_def flood_clean_def comp_def)
  finally show ?thesis .
qed

lemma id4_inj: "k < 10000 \<Longrightarrow> k' < 10000 \<Longrightarrow> id4 k = id4 k' \<Longrightarrow> k = k'"
proof -
  assume k: "k < 10000" and k': "k' < 10000" and eq: "id4 k = id4 k'"
  have c: "char_of (48 + a) = char_of (48 + b) \<Longrightarrow> a = b" if "a < 10" "b < 10" for a b :: nat
  proof -
    assume "char_of (48 + a) = char_of (48 + b)"
    then have "(48 + a) mod 256 = (48 + b) mod 256"
      by (simp add: char_of_eq_iff take_bit_eq_mod)
    with that show "a = b" by simp
  qed
  from eq have e3: "k div 1000 mod 10 = k' div 1000 mod 10"
    and e2: "k div 100 mod 10 = k' div 100 mod 10"
    and e1: "k div 10 mod 10 = k' div 10 mod 10" and e0: "k mod 10 = k' mod 10"
    by (auto simp: id4_def dest!: c [rotated 2])
  have d: "n = 10 * (n div 10) + n mod 10" for n :: nat by simp
  have "k div 1000 = k' div 1000" using e3 k k' by simp
  then have "k div 100 div 10 = k' div 100 div 10" by (simp add: div_mult2_eq [symmetric])
  with e2 have "k div 100 = k' div 100" using d [of "k div 100"] d [of "k' div 100"] by simp
  then have "k div 10 div 10 = k' div 10 div 10" by (simp add: div_mult2_eq [symmetric])
  with e1 have "k div 10 = k' div 10" using d [of "k div 10"] d [of "k' div 10"] by simp
  with e0 show "k = k'" using d [of k] d [of k'] by simp
qed

lemma flood_rest_ids: "map ev_id (map (\<lambda>k. plain_event (id4 k) (2 + real k)) [0..<1200]) = map id4 [0..<1200]"
  by (simp add: plain_event_def comp_def)

lemma distinct_flood_ids: "distinct (map id4 [0..<1200])"
proof -
  have "inj_on id4 (set [0..<1200])"
    by (rule inj_onI) (rule id4_inj, auto)
  then show ?thesis by (simp add: distinct_map)
qed

lemma sorted_flood_ts: "sorted (map ev_ts (map (\<lambda>k. plain_event (id4 k) (2 + real k)) [0..<n]))"
proof -
  have "sorted_wrt (\<lambda>x y. 2 + real x \<le> 2 + real y) [0..<n]"
    by (rule sorted_wrt_mono_rel [of _ "(\<le>)"]) (simp_all add: sorted_wrt_iff_nth_less)
  then show ?thesis by (simp add: plain_event_def comp_def sorted_map)
qed

lemma events_block_flood:
  "events_block h flood = Some (map (\<lambda>k. plain_event (id4 k) (2 + real k)) [0..<1200])"
proof -
  let ?a = "plain_event ''a'' 1"
  let ?rest = "map (\<lambda>k. plain_event (id4 k) (2 + real k)) [0..<1200]"
  have "ev_id ?a = ''a''" by (simp add: plain_event_def)
  then have "map ev_id (?a # ?rest) = ''a'' # map id4 [0..<1200]"
    by (simp only: list.map flood_rest_ids)
  moreover have "''a'' \<notin> set (map id4 [0..<1200])" by (auto simp: id4_def)
  ultimately have ids: "distinct (map ev_id (?a # ?rest))"
    using distinct_flood_ids by (simp only: distinct.simps) simp
  have d: "dedup (?a # ?a # ?rest) = ?a # ?rest"
    by (simp only: dedup_repeat dedup_distinct [OF ids])
  have "sorted (map ev_ts (?a # ?rest))"
    using sorted_flood_ts [of 1200] by (auto simp: plain_event_def)
  then have s: "sort_key ev_ts (?a # ?rest) = ?a # ?rest" by (rule sort_key_id_if_sorted)
  have l: "length (?a # ?rest) - MAX_EVENTS = 1" by (simp add: MAX_EVENTS_def)
  have "events_block h flood = Some (drop (length (?a # ?rest) - MAX_EVENTS) (sort_key ev_ts (?a # ?rest)))"
    unfolding events_block_eq using clean_flood [of h] d by simp
  then show ?thesis by (simp only: s l) simp
qed

lemma events_block_dup:
  "events_block h dup_events =
     Some [plain_event ''b'' 3, (plain_event ''a'' 5) \<lparr> ev_title := ''new'' \<rparr>]"
  by (simp add: events_block_def clean_events_def map_throw_def enumerate_eq_zip dup_events_def
      sanitizeEvent_def toNum_def toStr_def js_or_def dedup_def js_sort_def cmp_ts_def or0_def
      plain_event_def MAX_EVENTS_def upt_rec)

lemma sanitize_events_only:
  "sanitizePayload h (JObj [(''events'', JArr es)]) =
     map_option (\<lambda>evs. \<lparr> snap_v = 2, snap_t = date_now h (length es),
        snap_stake = \<lparr> stake_labels = [], stake_data = [], stake_moves = [], stake_types = [] \<rparr>,
        snap_wd = \<lparr> wd_labels = [], wd_values = [], wd_times = [] \<rparr>,
        snap_nw = \<lparr> nw_times = [], nw_usd = [], nw_inj = [] \<rparr>, snap_events = evs \<rparr>)
       (events_block h es)"
  by (cases "events_block h es") (simp_all add: sanitizePayload_def)

lemma sanitizePayload_events:
  assumes "sanitizePayload h p = Some out" and "as_array (get p ''events'') = Some es"
  shows "events_block h es = Some (snap_events out)"
  using sanitizePayload_parts(4) [OF assms(1)] assms(2) by simp

text \<open>
  C8, as the code has it.  The events of the sanitized snapshot are in ascending order of
  \<^verbatim>\<open>ts\<close>.  Events with
  equal \<^verbatim>\<open>ts\<close> keep the order they have among the values of the \<^verbatim>\<open>Map\<close> (all of them
  when nothing is clamped, the last of them otherwise), and that order is the order in which
  their ids first occur in the input: a fixed rule, with nothing left to the sorting
  algorithm.  When every event carries a usable \<^verbatim>\<open>ts\<close>, the events do not depend on the
  clock, so another run gives the same list.  For the input
  \<^verbatim>\<open>[{ts:5,id:a},{ts:3,id:b},{ts:5,id:c}]\<close> the stored ids are \<^verbatim>\<open>b, a, c\<close>.
\<close>

theorem C8_sorted_ties_stable:
  assumes "sanitizePayload h p = Some out" and "as_array (get p ''events'') = Some es"
  shows "\<exists>cleaned. clean_events h es = Some cleaned
       \<and> sorted (map ev_ts (snap_events out))
       \<and> (\<forall>t. suffix (filter (\<lambda>e. ev_ts e = t) (snap_events out))
                       (filter (\<lambda>e. ev_ts e = t) (dedup cleaned)))
       \<and> (length (dedup cleaned) \<le> MAX_EVENTS \<longrightarrow>
            (\<forall>t. filter (\<lambda>e. ev_ts e = t) (snap_events out)
                   = filter (\<lambda>e. ev_ts e = t) (dedup cleaned)))
       \<and> map ev_id (dedup cleaned) = rev (remdups (rev (map ev_id cleaned)))
       \<and> ((\<forall>e \<in> set es. \<exists>r. toNum h (get e ''ts'') = Some r \<and> r \<noteq> 0) \<longrightarrow>
            (\<forall>c. events_block (h\<lparr> date_now := c \<rparr>) es = Some (snap_events out)))
       \<and> map_option (map ev_id \<circ> snap_events) (sanitizePayload h (JObj [(''events'', JArr abc_events)]))
            = Some [''b'', ''a'', ''c'']"
proof -
  have ex: "map_option (map ev_id \<circ> snap_events) (sanitizePayload h (JObj [(''events'', JArr abc_events)]))
            = Some [''b'', ''a'', ''c'']"
    by (simp add: sanitize_events_only events_block_abc plain_event_def)
  from events_block_sorted_stable [OF sanitizePayload_events [OF assms]] ex
  show ?thesis by blast
qed

text \<open>
  C8, witness: the theorem at the payload that holds the three events of the example.
\<close>

theorem C8_sorted_ties_stable_witness:
  "map_option snap_events (sanitizePayload host0 (JObj [(''events'', JArr abc_events)]))
     = Some [plain_event ''b'' 3, plain_event ''a'' 5, plain_event ''c'' 5]
   \<and> as_array (get (JObj [(''events'', JArr abc_events)]) ''events'') = Some abc_events
   \<and> sorted (map ev_ts [plain_event ''b'' 3, plain_event ''a'' 5, plain_event ''c'' 5])
   \<and> events_block (host0\<lparr> date_now := (\<lambda>k. 7) \<rparr>) abc_events
     = Some [plain_event ''b'' 3, plain_event ''a'' 5, plain_event ''c'' 5]"
proof -
  let ?p = "JObj [(''events'', JArr abc_events)]"
  obtain out where s: "sanitizePayload host0 ?p = Some out"
    and o: "snap_events out = [plain_event ''b'' 3, plain_event ''a'' 5, plain_event ''c'' 5]"
    by (simp add: sanitize_events_only events_block_abc)
  have a: "as_array (get ?p ''events'') = Some abc_events" by simp
  have t: "\<forall>e \<in> set abc_events. \<exists>r. toNum host0 (get e ''ts'') = Some r \<and> r \<noteq> 0"
    by (simp add: abc_events_def toNum_def)
  from C8_sorted_ties_stable [OF s a] t s a show ?thesis by (auto simp: o)
qed

text \<open>
  C8, counterexample to the claim as stated: two runs on identical input, the clock reading
  1000 in one and 2000 in the other.  The event of \<open>unstamped\<close> that has no \<^verbatim>\<open>ts\<close> is stamped
  by the clock and changes place.  In \<open>colliding\<close> the id generated from the stamp is the id
  of a later event in one run only, and the two events with \<^verbatim>\<open>ts\<close> 5 come out in one order
  there and in the other order in the other run.
\<close>

theorem C8_counterexample:
  "map_option (map ev_id \<circ> snap_events)
       (sanitizePayload (host_at 1000) (JObj [(''events'', JArr unstamped)])) = Some [''a'', ''b'']
   \<and> map_option (map ev_id \<circ> snap_events)
       (sanitizePayload (host_at 2000) (JObj [(''events'', JArr unstamped)])) = Some [''b'', ''a'']
   \<and> map_option (map ev_id \<circ> snap_events)
       (sanitizePayload (host_at 1000) (JObj [(''events'', JArr colliding)]))
       = Some [''1000:event:event'', ''y'']
   \<and> map_option (map ev_ts \<circ> snap_events)
       (sanitizePayload (host_at 1000) (JObj [(''events'', JArr colliding)])) = Some [5, 5]
   \<and> map_option (map ev_id \<circ> snap_events)
       (sanitizePayload (host_at 2000) (JObj [(''events'', JArr colliding)]))
       = Some [''y'', ''1000:event:event'', ''2000:event:event'']
   \<and> map_option (map ev_ts \<circ> snap_events)
       (sanitizePayload (host_at 2000) (JObj [(''events'', JArr colliding)])) = Some [5, 5, 2000]"
  by (simp add: sanitize_events_only events_block_def clean_events_def map_throw_def
      enumerate_eq_zip unstamped_def colliding_def host_at_def host0_def sanitizeEvent_def
      toNum_def toStr_def js_or_def dedup_def js_sort_def cmp_ts_def or0_def
      is_space_def MAX_EVENTS_def upt_rec)

text \<open>
  C7, as the code has it.  The events of the sanitized snapshot have pairwise distinct
  ids, so every id is stored at most once; every stored event is the last event of the
  sanitized input with its id, so the later occurrence wins; and when the input has at most
  \<open>MAX_EVENTS\<close> distinct ids, every id of the input is stored exactly once.
\<close>

theorem C7_upsert_by_id:
  assumes "sanitizePayload h p = Some out" and "as_array (get p ''events'') = Some es"
  shows "\<exists>cleaned. clean_events h es = Some cleaned
       \<and> distinct (map ev_id (snap_events out))
       \<and> (\<forall>i. length (filter (\<lambda>e. ev_id e = i) (snap_events out)) \<le> 1)
       \<and> (\<forall>e \<in> set (snap_events out). e = last (filter (\<lambda>x. ev_id x = ev_id e) cleaned))
       \<and> ev_id ` set (snap_events out) \<subseteq> ev_id ` set cleaned
       \<and> (card (ev_id ` set cleaned) \<le> MAX_EVENTS \<longrightarrow>
            (\<forall>x \<in> set cleaned. length (filter (\<lambda>e. ev_id e = ev_id x) (snap_events out)) = 1))"
  by (rule events_block_upsert [OF sanitizePayload_events [OF assms]])

text \<open>
  C7, witness: the id \<^verbatim>\<open>a\<close> sent twice, first with the title \<^verbatim>\<open>old\<close>, then with
  \<^verbatim>\<open>new\<close>.
\<close>

theorem C7_upsert_by_id_witness:
  "map_option snap_events (sanitizePayload host0 (JObj [(''events'', JArr dup_events)]))
     = Some [plain_event ''b'' 3, (plain_event ''a'' 5) \<lparr> ev_title := ''new'' \<rparr>]
   \<and> as_array (get (JObj [(''events'', JArr dup_events)]) ''events'') = Some dup_events
   \<and> distinct (map ev_id [plain_event ''b'' 3, (plain_event ''a'' 5) \<lparr> ev_title := ''new'' \<rparr>])
   \<and> length (filter (\<lambda>e. ev_id e = ''a'')
        [plain_event ''b'' 3, (plain_event ''a'' 5) \<lparr> ev_title := ''new'' \<rparr>]) \<le> 1"
proof -
  let ?p = "JObj [(''events'', JArr dup_events)]"
  obtain out where s: "sanitizePayload host0 ?p = Some out"
    and o: "snap_events out = [plain_event ''b'' 3, (plain_event ''a'' 5) \<lparr> ev_title := ''new'' \<rparr>]"
    by (simp add: sanitize_events_only events_block_dup)
  have a: "as_array (get ?p ''events'') = Some dup_events" by simp
  from C7_upsert_by_id [OF s a] s a show ?thesis by (auto simp: o)
qed

text \<open>
  C7, counterexample to the claim as stated: in \<open>flood\<close> the event with id \<^verbatim>\<open>a\<close> is sent
  twice and has the earliest \<^verbatim>\<open>ts\<close> of 1201 distinct ids; the clamp keeps the last 1200
  events, and no stored event has the id \<^verbatim>\<open>a\<close>.
\<close>

theorem C7_counterexample:
  "map_option (filter (has_id ''a'') \<circ> snap_events)
       (sanitizePayload host0 (JObj [(''events'', JArr flood)])) = Some []
   \<and> map_option (length \<circ> snap_events)
       (sanitizePayload host0 (JObj [(''events'', JArr flood)])) = Some 1200"
proof -
  have "filter (has_id ''a'') (map (\<lambda>k. plain_event (id4 k) (2 + real k)) [0..<1200]) = []"
    by (auto simp: filter_empty_conv has_id_def plain_event_def id4_def)
  then show ?thesis by (simp add: sanitize_events_only events_block_flood)
qed

section \<open>The size ceiling\<close>

lemma normalizeAddr_parse [simp]: "normalizeAddr (h\<lparr> json_parse := f \<rparr>) a = normalizeAddr h a"
  by (simp add: normalizeAddr_def ToString_host [of "h\<lparr> json_parse := f \<rparr>" h])

lemma emit_kept:
  "\<not> rd_destroyed (emit s cs) \<Longrightarrow>
     emit s cs = s\<lparr> rd_raw := rd_raw s @ concat cs \<rparr>
     \<and> (cs \<noteq> [] \<longrightarrow> length (rd_raw s @ concat cs) \<le> MAX_BODY_BYTES)"
proof (induction cs arbitrary: s)
  case Nil
  then show ?case by simp
next
  case (Cons c cs)
  from Cons.prems have d: "\<not> rd_destroyed s" by (auto split: if_splits)
  with Cons.prems have e: "\<not> rd_destroyed (emit (on_data s c) cs)" by simp
  note ih = Cons.IH [OF e]
  from ih e have n: "\<not> rd_destroyed (on_data s c)" by (metis reader.select_convs(3) reader.surjective reader.update_convs(1))
  then have o: "on_data s c = s\<lparr> rd_raw := rd_raw s @ c \<rparr>" and l: "length (rd_raw s @ c) \<le> MAX_BODY_BYTES"
    by (auto simp: on_data_def Let_def split: if_splits)
  from ih o l d show ?case by (cases "cs = []") auto
qed

lemma emit_within:
  "\<not> rd_destroyed s \<Longrightarrow> length (rd_raw s @ concat cs) \<le> MAX_BODY_BYTES \<Longrightarrow>
     emit s cs = s\<lparr> rd_raw := rd_raw s @ concat cs \<rparr>"
proof (induction cs arbitrary: s)
  case Nil
  then show ?case by simp
next
  case (Cons c cs)
  from Cons.prems(2) have l: "length (rd_raw s @ c) \<le> MAX_BODY_BYTES" by simp
  then have o: "on_data s c = s\<lparr> rd_raw := rd_raw s @ c \<rparr>" by (simp add: on_data_def Let_def)
  from Cons.IH [of "on_data s c"] Cons.prems o show ?case by simp
qed

lemma emit_tooLarge:
  "rd_tooLarge s \<longrightarrow> rd_destroyed s \<Longrightarrow> rd_tooLarge (emit s cs) \<longrightarrow> rd_destroyed (emit s cs)"
  by (induction cs arbitrary: s) (auto simp: on_data_def Let_def)

text \<open>A streamed body above the ceiling: the promise of \<^verbatim>\<open>readRawBody\<close> never resolves.\<close>

lemma readRawBody_too_large:
  assumes "req_body r = JUndefined \<or> req_body r = JNull"
    and "length (concat (req_chunks r)) > MAX_BODY_BYTES"
  shows "readRawBody api r = None"
proof -
  let ?s = "\<lparr> rd_raw = [], rd_tooLarge = False, rd_destroyed = False \<rparr>"
  have "rd_destroyed (emit ?s (req_chunks r))"
  proof (rule ccontr)
    assume "\<not> rd_destroyed (emit ?s (req_chunks r))"
    from emit_kept [OF this] assms(2) show False by (cases "req_chunks r = []") auto
  qed
  with assms(1) show ?thesis by (auto simp: readRawBody_def Let_def)
qed

text \<open>A streamed body within the ceiling is returned whole once the stream has ended.\<close>

lemma readRawBody_within:
  assumes "req_body r = JUndefined \<or> req_body r = JNull" and "req_ends r"
    and "length (concat (req_chunks r)) \<le> MAX_BODY_BYTES"
  shows "readRawBody api r = Some (Some (concat (req_chunks r)))"
  using assms emit_within [of "\<lparr> rd_raw = [], rd_tooLarge = False, rd_destroyed = False \<rparr>" "req_chunks r"]
  by (auto simp: readRawBody_def Let_def)

text \<open>\<^verbatim>\<open>readRawBody\<close> never returns its \<^verbatim>\<open>null\<close>, and the snapshot endpoint never answers
  with status 413.\<close>

lemma readRawBody_never_null: "readRawBody api r \<noteq> Some None"
  using emit_tooLarge [of "\<lparr> rd_raw = [], rd_tooLarge = False, rd_destroyed = False \<rparr>" "req_chunks r"]
  by (auto simp: readRawBody_def Let_def split: jsval.splits)

lemma point_never_413: "map_option res_status (fst (point_handler h api st r)) \<noteq> Some 413"
  using readRawBody_never_null [of api r]
  by (auto simp: point_handler_def Let_def json_def split: option.splits)

text \<open>
  C6, what the code does with a POST whose body arrives on the request stream and is
  longer than \<open>MAX_BODY_BYTES\<close> characters.  The tracking endpoint, once the stream has
  ended, answers with status 413 whatever \<^verbatim>\<open>JSON.parse\<close> would make of the text, and stores
  nothing.  The snapshot endpoint (valid address, no parsed body in \<^verbatim>\<open>req.body\<close>) destroys
  the request in its \<^verbatim>\<open>data\<close> listener, is never told that the stream has ended, and gives
  no response at all: the 413 that its handler holds ready is never sent.
\<close>

theorem C6_oversized_stream:
  assumes post: "req_method r = ''POST''"
    and big: "length (concat (req_chunks r)) > MAX_BODY_BYTES"
  shows "(normalizeAddr h (req_address r) = Some address \<and> address \<noteq> []
          \<and> (req_body r = JUndefined \<or> req_body r = JNull)
          \<longrightarrow> (\<forall>f. point_handler (h\<lparr> json_parse := f \<rparr>) api st r = (None, st)))
       \<and> (req_ends r
          \<longrightarrow> (\<forall>f. track_handler (h\<lparr> json_parse := f \<rparr>) tapi tst r
                 = (Some \<lparr> res_status = 413, res_body = T_error ''Body too large'' \<rparr>, tst)))"
proof -
  have point: "normalizeAddr h (req_address r) = Some address \<and> address \<noteq> []
          \<and> (req_body r = JUndefined \<or> req_body r = JNull)
          \<longrightarrow> (\<forall>f. point_handler (h\<lparr> json_parse := f \<rparr>) api st r = (None, st))"
  proof (intro impI allI, elim conjE)
    fix f
    assume a: "normalizeAddr h (req_address r) = Some address" "address \<noteq> []"
      and b: "req_body r = JUndefined \<or> req_body r = JNull"
    show "point_handler (h\<lparr> json_parse := f \<rparr>) api st r = (None, st)"
      using post a readRawBody_too_large [OF b big, of api]
      by (simp add: point_handler_def Let_def)
  qed
  have ne: "concat (req_chunks r) \<noteq> []"
  proof
    assume "concat (req_chunks r) = []"
    with big show False by simp
  qed
  have track: "req_ends r
          \<longrightarrow> (\<forall>f. track_handler (h\<lparr> json_parse := f \<rparr>) tapi tst r
                 = (Some \<lparr> res_status = 413, res_body = T_error ''Body too large'' \<rparr>, tst))"
    using post big ne by (simp add: track_handler_def Let_def reply_def json_def)
  from point track show ?thesis by blast
qed

lemma length_body_big: "length body_big = 220001"
  by (simp add: body_big_def)

text \<open>
  C6, witness: the body of 220001 characters sent in two chunks to both endpoints.
\<close>

theorem C6_oversized_stream_witness:
  "req_method stream_big = ''POST'' \<and> req_ends stream_big
   \<and> length (concat (req_chunks stream_big)) = 220001
   \<and> point_handler host_big api0 store0 stream_big = (None, store0)
   \<and> track_handler host_big track_api0 store_empty stream_big
       = (Some \<lparr> res_status = 413, res_body = T_error ''Body too large'' \<rparr>, store_empty)"
proof -
  have p: "req_method stream_big = ''POST''" and e: "req_ends stream_big"
    by (simp_all add: stream_big_def)
  have c: "concat (req_chunks stream_big) = body_big" by (simp add: stream_big_def)
  have b: "length (concat (req_chunks stream_big)) > MAX_BODY_BYTES"
    by (simp add: c length_body_big MAX_BODY_BYTES_def)
  have a: "normalizeAddr host0 (req_address stream_big) = Some address0 \<and> address0 \<noteq> []
           \<and> (req_body stream_big = JUndefined \<or> req_body stream_big = JNull)"
    by (simp add: stream_big_def normalizeAddr_address0) (simp add: address0_def)
  from C6_oversized_stream [OF p b, of host0 address0 api0 store0 track_api0 store_empty] a e
  have "point_handler host_big api0 store0 stream_big = (None, store0)"
    and "track_handler host_big track_api0 store_empty stream_big
       = (Some \<lparr> res_status = 413, res_body = T_error ''Body too large'' \<rparr>, store_empty)"
    by (auto simp: host_big_def)
  with p e c show ?thesis by (simp add: length_body_big)
qed

text \<open>
  The same body of 220001 characters, found in \<^verbatim>\<open>req.body\<close>, is parsed, sanitized and
  stored by the snapshot endpoint, which answers with status 200: the branch of
  \<^verbatim>\<open>readRawBody\<close> for a body that the platform has parsed looks at no length.
\<close>

lemma point_parsed_body_unchecked:
  "length body_big = 220001
   \<and> map_option res_status (fst (point_handler host_big api0 store0 post_big)) = Some 200
   \<and> files (snd (point_handler host_big api0 store0 post_big))
        (''inj-points/'' @ address0 @ ''/data.json'') = Some ''snapshot''"
proof -
  have m: "req_method post_big = ''POST''" by (simp add: post_big_def)
  have a: "normalizeAddr host_big (req_address post_big) = Some address0"
    by (simp add: post_big_def normalizeAddr_address0)
  have n: "address0 \<noteq> []" by (simp add: address0_def)
  have b: "readRawBody api0 post_big = Some (Some body_big)"
    by (simp add: readRawBody_def post_big_def)
  have e: "body_big \<noteq> []" by (simp add: body_big_def)
  have p: "json_parse host_big body_big = Some (JObj [])" by (simp add: host_big_def)
  have c: "sanitizePayload host_big (JObj []) =
      Some \<lparr> snap_v = 2, snap_t = 1000,
             snap_stake = \<lparr> stake_labels = [], stake_data = [], stake_moves = [], stake_types = [] \<rparr>,
             snap_wd = \<lparr> wd_labels = [], wd_values = [], wd_times = [] \<rparr>,
             snap_nw = \<lparr> nw_times = [], nw_usd = [], nw_inj = [] \<rparr>, snap_events = [] \<rparr>"
    by (simp add: sanitizePayload_def host_big_def host0_def)
  have w: "write_ok store0" by (simp add: store0_def)
  note r = point_post_stores [OF m a n b e p c w]
  have s: "snapshot_text api0 = (\<lambda>s. ''snapshot'')" by (simp add: api0_def)
  show ?thesis by (simp add: r length_body_big json_def s)
qed

text \<open>The snapshot GET does swallow a stored text that does not parse.\<close>

lemma point_get_corrupt:
  assumes "req_method r = ''GET''"
    and "normalizeAddr h (req_address r) = Some address" and "address \<noteq> []"
    and "files st (''inj-points/'' @ address @ ''/data.json'') = Some txt"
    and "json_parse h txt = None"
  shows "point_handler h api st r = (Some (json 200 (P_data JNull)), st)"
  using assms by (simp add: point_handler_def Let_def)

section \<open>The sanitizer returns on ordinary payloads\<close>

lemma those_total: "(\<forall>x \<in> set xs. f x \<noteq> None) \<Longrightarrow> \<exists>ys. those (map f xs) = Some ys"
  by (induction xs) auto

lemma map_throw_total: "(\<forall>x \<in> set xs. f x \<noteq> None) \<Longrightarrow> \<exists>ys. map_throw f xs = Some ys"
  unfolding map_throw_def by (rule those_total)

lemma ToString_ordinary: "ordinary v \<Longrightarrow> \<exists>s. ToString h v = Some s"
proof (induction h v rule: ToString.induct)
  case (6 h xs)
  have "\<forall>x \<in> set xs. (if x = JUndefined \<or> x = JNull then Some [] else ToString h x) \<noteq> None"
    using 6 by (auto simp: list_all_iff)
  from those_total [OF this] show ?case by auto
qed simp_all

lemma ToNumber_ordinary: "ordinary v \<Longrightarrow> \<exists>n. ToNumber h v = Some n"
  using ToString_ordinary [of v h] by (cases v) (auto simp del: ToString.simps ordinary.simps)

lemma toNum_ordinary: "ordinary v \<Longrightarrow> \<exists>r. toNum h v = Some r"
  using ToNumber_ordinary [of v h] by (auto simp: toNum_def)

lemma toStr_ordinary: "ordinary v \<Longrightarrow> \<exists>s. toStr h v n = Some s"
  using ToString_ordinary [of v h] by (auto simp: toStr_def)

lemma ordinary_get: "ordinary v \<Longrightarrow> ordinary (get v k)"
proof (cases v)
  case (JObj kvs)
  assume "ordinary v"
  with JObj show ?thesis
    by (auto simp: list_all_iff split: option.splits dest!: map_of_SomeD)
qed simp_all

lemma ordinary_js_or: "ordinary a \<Longrightarrow> ordinary b \<Longrightarrow> ordinary (js_or a b)"
  by (simp add: js_or_def)

lemma sanitizeEvent_ordinary:
  assumes "ordinary e"
  shows "\<exists>ev. sanitizeEvent h now e = Some ev"
proof -
  note g = ordinary_get [OF assms]
  obtain n where n: "toNum h (get e ''ts'') = Some n" using toNum_ordinary [OF g] by blast
  obtain kind where k: "toStr h (js_or (get e ''kind'') (js_or (get e ''type'') (JStr ''event''))) 32 = Some kind"
    using toStr_ordinary [OF ordinary_js_or [OF g ordinary_js_or [OF g]]] by fastforce
  obtain title where t: "toStr h (js_or (get e ''title'') (JStr kind)) 64 = Some title"
    using toStr_ordinary [OF ordinary_js_or [OF g]] by fastforce
  obtain detail where d: "toStr h (js_or (get e ''detail'') (js_or (get e ''desc'') (JStr []))) 220 = Some detail"
    using toStr_ordinary [OF ordinary_js_or [OF g ordinary_js_or [OF g]]] by fastforce
  obtain v where v: "toNum h (get e ''value'') = Some v" using toNum_ordinary [OF g] by blast
  obtain dir where r: "toStr h (js_or (get e ''dir'') (JStr [])) 8 = Some dir"
    using toStr_ordinary [OF ordinary_js_or [OF g]] by fastforce
  obtain status where s: "toStr h (js_or (get e ''status'') (JStr ''done'')) 12 = Some status"
    using toStr_ordinary [OF ordinary_js_or [OF g]] by fastforce
  obtain ident where i: "toStr h (js_or (get e ''id'')
      (JStr (replace_ws False (fmt_num h (if n \<noteq> 0 then n else now) @ '':'' @ kind @ '':'' @ title)))) 120
      = Some ident"
    using toStr_ordinary [OF ordinary_js_or [OF g]] by fastforce
  show ?thesis using n k t d v r s i by (simp add: sanitizeEvent_def)
qed

lemma ordinary_elements: "ordinary v \<Longrightarrow> \<forall>x \<in> set (clampArray (as_array v) n). ordinary x"
  by (cases v) (auto simp: list_all_iff dest: in_set_dropD)

lemma clean_events_ordinary:
  assumes "list_all ordinary es"
  shows "\<exists>cleaned. clean_events h es = Some cleaned"
  unfolding clean_events_def
proof (rule map_throw_total, rule ballI)
  fix p assume "p \<in> set (enumerate 0 es)"
  then have "fst p < length es" and "es ! fst p = snd p" by (auto simp: in_set_enumerate_eq)
  then have "snd p \<in> set es" by (metis nth_mem)
  with assms have "ordinary (snd p)" by (simp add: list_all_iff)
  from sanitizeEvent_ordinary [OF this, of h "date_now h (fst p)"]
  show "(case p of (i, e) \<Rightarrow> sanitizeEvent h (date_now h i) e) \<noteq> None"
    by (cases p) auto
qed

lemma series_ordinary:
  assumes "ordinary v"
  shows "\<exists>ys. map_throw (toNum h) (clampArray (as_array (get v k)) n) = Some ys"
    and "\<exists>ys. map_throw (\<lambda>x. toStr h x m) (clampArray (as_array (get v k)) n) = Some ys"
proof -
  have e: "\<forall>x \<in> set (clampArray (as_array (get v k)) n). ordinary x"
    by (rule ordinary_elements [OF ordinary_get [OF assms]])
  show "\<exists>ys. map_throw (toNum h) (clampArray (as_array (get v k)) n) = Some ys"
    using e toNum_ordinary by (intro map_throw_total) fastforce
  show "\<exists>ys. map_throw (\<lambda>x. toStr h x m) (clampArray (as_array (get v k)) n) = Some ys"
    using e toStr_ordinary by (intro map_throw_total) fastforce
qed

text \<open>\<^verbatim>\<open>sanitizePayload\<close> returns a snapshot for every payload without such objects, so the
  results about its snapshots cover them all.\<close>

lemma sanitizePayload_ordinary:
  assumes "ordinary p"
  shows "\<exists>out. sanitizePayload h p = Some out"
proof -
  note s = series_ordinary [OF ordinary_get [OF assms]]
  have stake: "\<exists>x. stake_block h (get p ''stake'') = Some x"
    using s(2) [of h 48 "''stake''" "''labels''" MAX_POINTS] s(1) [of h "''stake''" "''data''" MAX_POINTS]
      s(1) [of h "''stake''" "''moves''" MAX_POINTS] s(2) [of h 40 "''stake''" "''types''" MAX_POINTS]
    by (auto simp: stake_block_def Let_def)
  have wd: "\<exists>x. wd_block h (get p ''wd'') = Some x"
    using s(2) [of h 48 "''wd''" "''labels''" MAX_POINTS] s(1) [of h "''wd''" "''values''" MAX_POINTS]
      s(1) [of h "''wd''" "''times''" MAX_POINTS]
    by (auto simp: wd_block_def Let_def)
  have nw: "\<exists>x. nw_block h (get p ''nw'') = Some x"
    using s(1) [of h "''nw''" "''times''" MAX_POINTS] s(1) [of h "''nw''" "''usd''" MAX_POINTS]
      s(1) [of h "''nw''" "''inj''" MAX_POINTS]
    by (auto simp: nw_block_def Let_def)
  have ev: "\<exists>x. (case as_array (get p ''events'') of Some es \<Rightarrow> events_block h es | None \<Rightarrow> Some [])
              = Some x"
  proof (cases "as_array (get p ''events'')")
    case None
    then show ?thesis by simp
  next
    case (Some es)
    then have "get p ''events'' = JArr es" by (cases "get p ''events''") auto
    with ordinary_get [OF assms, of "''events''"] have "list_all ordinary es" by simp
    from clean_events_ordinary [OF this, of h] Some show ?thesis
      by (auto simp: events_block_def)
  qed
  from stake wd nw ev show ?thesis by (auto simp: sanitizePayload_def)
qed

end
